theory Spec2Isabelle
  imports Main "HOL-Library.Word"
begin

section \<open>mcjoin: the multicast test session engine of \<^verbatim>\<open>src/mcjoin.c\<close>\<close>

text \<open>
  A shallow embedding of \<^verbatim>\<open>mcjoin.c\<close>: the expansion of the command line's group
  specifications into the group table, the resolution of the table, the status history
  with its spinner, the timer handler, the run loop with its signal handlers, and the
  option switch of \<^verbatim>\<open>main\<close>.

  The headers \<^verbatim>\<open>mcjoin.h\<close>, \<^verbatim>\<open>addr.h\<close>, \<^verbatim>\<open>log.h\<close> and \<^verbatim>\<open>screen.h\<close>, the sender
  and the receiver are not part of the source at hand. Their constants and functions
  are parameters of the model (the records \<open>hdr\<close> and \<open>env\<close> below); nothing is
  assumed about them beyond what a theorem states as a hypothesis.
\<close>

subsection \<open>Bytes in memory, byte order, and the address step\<close>

type_synonym byte = "8 word"

datatype byteorder = LittleEndian | BigEndian

text \<open>The value of a byte sequence read as a big-endian (network order) integer.\<close>

definition be_val :: "byte list \<Rightarrow> nat" where
  "be_val bs = foldl (\<lambda>v b. v * 256 + unat b) 0 bs"

definition be_bytes4 :: "nat \<Rightarrow> byte list" where
  "be_bytes4 v = [word_of_nat (v div 2 ^ 24 mod 256), word_of_nat (v div 2 ^ 16 mod 256),
                  word_of_nat (v div 2 ^ 8 mod 256), word_of_nat (v mod 256)]"

text \<open>
  A \<^verbatim>\<open>uint32_t\<close> read from and written to four bytes of memory in the byte order of
  the host (what \<^verbatim>\<open>memcpy(&step, p, sizeof(step))\<close> and an access to \<^verbatim>\<open>s_addr\<close> do),
  and the C library's \<^verbatim>\<open>ntohl\<close> and \<^verbatim>\<open>htonl\<close>: the identity on a big-endian host, the
  byte swap on a little-endian one.
\<close>

definition load32 :: "byteorder \<Rightarrow> byte list \<Rightarrow> 32 word" where
  "load32 bo m =
     word_of_nat (case bo of BigEndian \<Rightarrow> be_val m | LittleEndian \<Rightarrow> be_val (rev m))"

definition store32 :: "byteorder \<Rightarrow> 32 word \<Rightarrow> byte list" where
  "store32 bo w =
     (case bo of BigEndian \<Rightarrow> be_bytes4 (unat w) | LittleEndian \<Rightarrow> rev (be_bytes4 (unat w)))"

definition ntohl :: "byteorder \<Rightarrow> 32 word \<Rightarrow> 32 word" where
  "ntohl bo w = load32 BigEndian (store32 bo w)"

definition htonl :: "byteorder \<Rightarrow> 32 word \<Rightarrow> 32 word" where
  "htonl bo w = load32 bo (store32 BigEndian w)"

text \<open>
  The IPv4 step of \<^verbatim>\<open>main\<close> (lines 533-535), on the four bytes of \<^verbatim>\<open>sin->sin_addr\<close>:
  \<^verbatim>\<open>step = ntohl(sin->sin_addr.s_addr); step++; sin->sin_addr.s_addr = htonl(step);\<close>
\<close>

definition step_in_addr :: "byteorder \<Rightarrow> byte list \<Rightarrow> byte list" where
  "step_in_addr bo a =
     (let step = ntohl bo (load32 bo a);
          step = step + 1
      in store32 bo (htonl bo step))"

text \<open>
  The IPv6 step (lines 524-528), on the sixteen bytes of \<^verbatim>\<open>sin6->sin6_addr.s6_addr\<close>:
  \<^verbatim>\<open>memcpy(&step, &s6_addr[12], sizeof(step)); step = htonl(ntohl(step) + 1);
  memcpy(&s6_addr[12], &step, sizeof(step));\<close>
\<close>

definition step_in6_addr :: "byteorder \<Rightarrow> byte list \<Rightarrow> byte list" where
  "step_in6_addr bo a =
     (let step = load32 bo (take 4 (drop 12 a));
          step = htonl bo (ntohl bo step + 1)
      in take 12 a @ store32 bo step @ drop 16 a)"

lemmas step_defs = step_in_addr_def step_in6_addr_def ntohl_def htonl_def load32_def
  store32_def be_val_def be_bytes4_def

subsection \<open>C strings and \<^verbatim>\<open>atoi\<close>\<close>

text \<open>
  A C string is the list of its characters before the terminating NUL. \<open>cut_at c s\<close> is
  what \<^verbatim>\<open>pos = strchr(s, c); if (pos) *pos = 0;\<close> leaves: the text before the first
  \<open>c\<close> and the text after it, when \<open>c\<close> occurs.
\<close>

definition cut_at :: "char \<Rightarrow> string \<Rightarrow> (string \<times> string) option" where
  "cut_at c s =
     (if c \<in> set s then Some (takeWhile (\<lambda>x. x \<noteq> c) s, tl (dropWhile (\<lambda>x. x \<noteq> c) s))
      else None)"

text \<open>\<^verbatim>\<open>strlcpy(dst, src, size)\<close>: at most \<open>size - 1\<close> characters are copied.\<close>

definition strlcpy :: "string \<Rightarrow> nat \<Rightarrow> string" where
  "strlcpy src sz = take (sz - 1) src"

definition isspace :: "char \<Rightarrow> bool" where
  "isspace c = (c \<in> set [CHR '' '', CHR 0x09, CHR 0x0A, CHR 0x0B, CHR 0x0C, CHR 0x0D])"

definition isdigit :: "char \<Rightarrow> bool" where
  "isdigit c = (48 \<le> (of_char c :: nat) \<and> (of_char c :: nat) \<le> 57)"

definition dec_val :: "string \<Rightarrow> nat" where
  "dec_val ds = foldl (\<lambda>v c. v * 10 + ((of_char c :: nat) - 48)) 0 ds"

text \<open>
  \<^verbatim>\<open>atoi(s)\<close> is \<^verbatim>\<open>(int)strtol(s, NULL, 10)\<close>: white space is skipped, an optional sign
  is read, then the longest run of decimal digits (none gives 0). \<^verbatim>\<open>strtol\<close> saturates
  at the bounds of a 64-bit \<^verbatim>\<open>long\<close>, and the conversion to a 32-bit \<^verbatim>\<open>int\<close> keeps the
  low 32 bits.
\<close>

definition strtol10 :: "string \<Rightarrow> int" where
  "strtol10 s =
     (let s1 = dropWhile isspace s;
          neg = (s1 \<noteq> [] \<and> hd s1 = CHR ''-'');
          s2 = (if s1 \<noteq> [] \<and> (hd s1 = CHR ''-'' \<or> hd s1 = CHR ''+'') then tl s1 else s1);
          v = int (dec_val (takeWhile isdigit s2));
          v = (if neg then - v else v)
      in max (- (2 ^ 63)) (min (2 ^ 63 - 1) v))"

definition atoi :: "string \<Rightarrow> int" where
  "atoi s = sint (word_of_int (strtol10 s) :: 32 word)"

text \<open>The conversion of an \<^verbatim>\<open>int\<close> to \<^verbatim>\<open>size_t\<close> (64 bits).\<close>

definition to_size_t :: "int \<Rightarrow> nat" where
  "to_size_t i = nat (i mod 2 ^ 64)"

subsection \<open>The C library's address conversions\<close>

text \<open>
  \<^verbatim>\<open>inet_pton\<close> and \<^verbatim>\<open>inet_ntop\<close> belong to the C library, not to the program. The
  program's functions below take them from the record \<open>env\<close>. This section gives a
  model of the two, following the GNU C library, for the theorems that run the program
  on a concrete command line: dotted-quad IPv4 text, and IPv6 text in hexadecimal groups
  with one \<^verbatim>\<open>::\<close> and an optional dotted-quad tail.
\<close>

fun split_at :: "char \<Rightarrow> string \<Rightarrow> string list" where
  "split_at c [] = [[]]"
| "split_at c (x # xs) =
     (if x = c then [] # split_at c xs
      else (case split_at c xs of f # fs \<Rightarrow> (x # f) # fs | [] \<Rightarrow> [[x]]))"

fun join_with :: "string \<Rightarrow> string list \<Rightarrow> string" where
  "join_with sep [] = []"
| "join_with sep [f] = f"
| "join_with sep (f # fs) = f @ sep @ join_with sep fs"

text \<open>One decimal octet: digits only, no leading zero, at most 255.\<close>

definition dec_octet :: "string \<Rightarrow> byte option" where
  "dec_octet f =
     (if f \<noteq> [] \<and> list_all isdigit f \<and> (length f = 1 \<or> hd f \<noteq> CHR ''0'') \<and> dec_val f \<le> 255
      then Some (word_of_nat (dec_val f)) else None)"

definition inet_pton4 :: "string \<Rightarrow> byte list option" where
  "inet_pton4 s = (let fs = split_at CHR ''.'' s in if length fs = 4 then those (map dec_octet fs) else None)"

definition dec_str :: "nat \<Rightarrow> string" where
  "dec_str n =
     (let d = (\<lambda>k. ''0123456789'' ! k)
      in if n < 10 then [d n]
         else if n < 100 then [d (n div 10), d (n mod 10)]
         else [d (n div 100), d (n div 10 mod 10), d (n mod 10)])"

definition ntop4_text :: "byte list \<Rightarrow> string" where
  "ntop4_text a = join_with ''.'' (map (\<lambda>b. dec_str (unat b)) (take 4 a))"

definition hex_digit :: "char \<Rightarrow> nat option" where
  "hex_digit c =
     (let n = (of_char c :: nat)
      in if 48 \<le> n \<and> n \<le> 57 then Some (n - 48)
         else if 97 \<le> n \<and> n \<le> 102 then Some (n - 87)
         else if 65 \<le> n \<and> n \<le> 70 then Some (n - 55)
         else None)"

text \<open>One group of one to four hexadecimal digits, as its two bytes.\<close>

definition hex_group :: "string \<Rightarrow> byte list option" where
  "hex_group f =
     (if 1 \<le> length f \<and> length f \<le> 4
      then (case those (map hex_digit f) of
              None \<Rightarrow> None
            | Some ds \<Rightarrow> (let v = foldl (\<lambda>v d. v * 16 + d) 0 ds
                         in Some [word_of_nat (v div 256), word_of_nat (v mod 256)]))
      else None)"

definition hex_groups :: "string list \<Rightarrow> byte list option" where
  "hex_groups fs = map_option concat (those (map hex_group fs))"

definition inet_pton6 :: "string \<Rightarrow> byte list option" where
  "inet_pton6 s =
     (let fs0 = split_at CHR '':'' s;
          v4 = (CHR ''.'' \<in> set (last fs0));
          lead_ok = (hd fs0 \<noteq> [] \<or> (3 \<le> length fs0 \<and> fs0 ! 1 = []));
          trail_ok = (v4 \<or> last fs0 \<noteq> [] \<or> (3 \<le> length fs0 \<and> fs0 ! (length fs0 - 2) = []));
          tail = (if v4 then inet_pton4 (last fs0) else Some []);
          fs1 = (if v4 then butlast fs0 else fs0);
          fs2 = (if fs1 \<noteq> [] \<and> hd fs1 = [] then tl fs1 else fs1);
          fs3 = (if \<not> v4 \<and> fs2 \<noteq> [] \<and> last fs2 = [] then butlast fs2 else fs2);
          gaps = length (filter (\<lambda>f. f = []) fs3);
          before = takeWhile (\<lambda>f. f \<noteq> []) fs3;
          after = tl (dropWhile (\<lambda>f. f \<noteq> []) fs3)
      in if \<not> lead_ok \<or> \<not> trail_ok then None
         else (case tail of
                 None \<Rightarrow> None
               | Some t \<Rightarrow>
                   if gaps = 0
                   then (case hex_groups fs3 of
                           None \<Rightarrow> None
                         | Some a \<Rightarrow> if length a + length t = 16 then Some (a @ t) else None)
                   else if gaps = 1
                   then (case (hex_groups before, hex_groups after) of
                           (Some a, Some b) \<Rightarrow>
                             if length a + length b + length t \<le> 14
                             then Some (a @ replicate (16 - (length a + length b + length t)) 0 @ b @ t)
                             else None
                         | _ \<Rightarrow> None)
                   else None))"

definition hex_char :: "nat \<Rightarrow> char" where
  "hex_char d = ''0123456789abcdef'' ! d"

text \<open>\<^verbatim>\<open>%x\<close> of a 16-bit value.\<close>

definition hex_str :: "nat \<Rightarrow> string" where
  "hex_str n =
     (if n < 16 then [hex_char n]
      else if n < 256 then [hex_char (n div 16), hex_char (n mod 16)]
      else if n < 4096 then [hex_char (n div 256), hex_char (n div 16 mod 16), hex_char (n mod 16)]
      else [hex_char (n div 4096 mod 16), hex_char (n div 256 mod 16), hex_char (n div 16 mod 16),
            hex_char (n mod 16)])"

text \<open>The eight 16-bit words of an IPv6 address, each from two bytes in network order.\<close>

fun words6 :: "byte list \<Rightarrow> nat list" where
  "words6 (x # y # r) = (unat x * 256 + unat y) # words6 r"
| "words6 r = []"

text \<open>The maximal runs of zero words, each as (base, length), from left to right.\<close>

fun zero_runs :: "nat \<Rightarrow> nat list \<Rightarrow> (nat \<times> nat) list" where
  "zero_runs i [] = []"
| "zero_runs i (w # ws) =
     (if w = 0
      then (let n = length (takeWhile (\<lambda>x. x = 0) ws)
            in (i, n + 1) # zero_runs (i + n + 1) (drop n ws))
      else zero_runs (i + 1) ws)"

text \<open>The leftmost longest run, when it has at least two words.\<close>

definition best_run :: "nat list \<Rightarrow> (nat \<times> nat) option" where
  "best_run ws =
     (let best = foldl (\<lambda>b r. if snd b < snd r then r else b) (0, 0) (zero_runs 0 ws)
      in if snd best < 2 then None else Some best)"

text \<open>
  The printing loop of \<^verbatim>\<open>inet_ntop\<close> for IPv6 from word \<open>i\<close> on: \<open>b\<close> and \<open>l\<close> are the base
  and the length of the run that \<^verbatim>\<open>::\<close> stands for (\<open>l = 0\<close>: none), \<open>v4\<close> is the
  dotted-quad text of the last four bytes when the address is printed as an
  encapsulated IPv4 address, at which point the loop ends.
\<close>

fun ntop6_words :: "nat \<Rightarrow> nat \<Rightarrow> string option \<Rightarrow> nat \<Rightarrow> nat list \<Rightarrow> string" where
  "ntop6_words b l v4 i [] = []"
| "ntop6_words b l v4 i (w # ws) =
     (if b \<le> i \<and> i < b + l
      then (if i = b then '':'' else []) @ ntop6_words b l v4 (i + 1) ws
      else (if i \<noteq> 0 then '':'' else [])
           @ (case (if i = 6 then v4 else None) of
                Some t \<Rightarrow> t
              | None \<Rightarrow> hex_str w @ ntop6_words b l v4 (i + 1) ws))"

definition ntop6_text :: "byte list \<Rightarrow> string" where
  "ntop6_text a =
     (let ws = words6 (take 16 a);
          (b, l) = (case best_run ws of None \<Rightarrow> (0, 0) | Some r \<Rightarrow> r);
          encaps = (b = 0 \<and> (l = 6 \<or> (l = 5 \<and> ws ! 5 = 65535)));
          v4 = (if encaps then Some (ntop4_text (drop 12 a)) else None)
      in ntop6_words b l v4 0 ws @ (if 0 < l \<and> b + l = 8 then '':'' else []))"

text \<open>
  Both conversions fail with \<^verbatim>\<open>ENOSPC\<close>, leaving the destination buffer as it was, when
  the text and its terminating NUL do not fit into \<open>size\<close> bytes.
\<close>

definition libc_inet_pton :: "bool \<Rightarrow> string \<Rightarrow> byte list option" where
  "libc_inet_pton v6 s = (if v6 then inet_pton6 s else inet_pton4 s)"

definition libc_inet_ntop :: "bool \<Rightarrow> byte list \<Rightarrow> nat \<Rightarrow> string option" where
  "libc_inet_ntop v6 a sz =
     (let t = (if v6 then ntop6_text a else ntop4_text a) in if length t < sz then Some t else None)"

lemma replicate_numeral: "replicate (numeral k) x = x # replicate (pred_numeral k) x"
  by (simp add: numeral_eq_Suc)

lemmas libc_defs = libc_inet_pton_def libc_inet_ntop_def inet_pton4_def inet_pton6_def
  ntop4_text_def ntop6_text_def dec_octet_def dec_str_def hex_digit_def hex_group_def
  hex_groups_def hex_char_def hex_str_def best_run_def isdigit_def dec_val_def
  replicate_numeral

subsection \<open>Parameters: the constants of the headers, the platform, the other modules\<close>

text \<open>
  The constants that \<^verbatim>\<open>mcjoin.c\<close> takes from \<^verbatim>\<open>mcjoin.h\<close>, \<^verbatim>\<open>addr.h\<close>, \<^verbatim>\<open>config.h\<close> and the
  system headers.
\<close>

record hdr =
  MAX_NUM_GROUPS :: nat
  STATUS_HISTORY :: nat
  STATUS_POS :: nat
  INET_ADDRSTR_LEN :: nat
  BUFSZ :: nat
  IFNAMSIZ :: nat
  DEFAULT_GROUP :: string
  DEFAULT_PORT :: int
  PACKAGE_VERSION :: string

datatype family = AF_UNSPEC | AF_INET | AF_INET6

text \<open>
  A socket address as \<^verbatim>\<open>main\<close> fills it: the family, the port as it goes on the wire
  (\<^verbatim>\<open>htons(port)\<close>), and the bytes of the address field.
\<close>

record sockaddr =
  sa_family :: family
  sa_port :: "16 word"
  sa_addr :: "byte list"

text \<open>
  \<^verbatim>\<open>struct gr\<close>, with the fields that \<^verbatim>\<open>mcjoin.c\<close> uses. \<open>source = None\<close> is the null
  pointer; \<open>status\<close> is the array \<^verbatim>\<open>char status[STATUS_HISTORY]\<close>.
\<close>

record gr =
  count :: "64 word"
  gaps :: "64 word"
  source :: "string option"
  group :: string
  src :: sockaddr
  grp :: sockaddr
  status :: string
  spin :: "64 word"

text \<open>What the program writes, in order: the only trace of its output the model keeps.\<close>

datatype out_event =
    ERROR string
  | PRINTF string
  | USAGE
  | STATS_GROUP string "64 word" "64 word"
  | STATS_TOTAL "64 word"
  | PROGRESS
  | HOSTDATE
  | ROW string char "string option" "64 word"
  | SCREEN string

text \<open>
  The global variables of \<^verbatim>\<open>mcjoin.c\<close>. The array \<^verbatim>\<open>groups[MAX_NUM_GROUPS]\<close> with its fill
  count \<^verbatim>\<open>group_num\<close> is the list \<open>groups\<close> of the entries in use: \<^verbatim>\<open>group_num\<close> is its
  length, \<^verbatim>\<open>groups[group_num++] = g\<close> appends, and no loop of the program reads an entry
  at or beyond \<^verbatim>\<open>group_num\<close>. The global \<^verbatim>\<open>count\<close> is \<open>count_global\<close> here (the name
  \<open>count\<close> is the field of \<open>gr\<close>); \<open>wait\<close> is the local variable of \<^verbatim>\<open>main\<close>; \<open>world\<close> is the
  state of everything outside \<^verbatim>\<open>mcjoin.c\<close> (sockets, terminal, log).
\<close>

record 'w state =
  old :: int
  join :: int
  foreground :: int
  period :: int
  width :: int
  height :: int
  bytes :: nat
  count_global :: nat
  port :: int
  ttl :: byte
  ident :: string
  need4 :: int
  need6 :: int
  groups :: "gr list"
  iface :: string
  running :: int
  winchg :: int
  wait :: int
  out :: "out_event list"
  world :: 'w

abbreviation group_num :: "'w state \<Rightarrow> nat" where
  "group_num s \<equiv> length (groups s)"

text \<open>
  The platform and the modules that are not at hand: the byte order of the host, the
  C library's address conversions (\<open>inet_pton v6 text\<close> is \<open>Some\<close> of the address bytes
  when \<^verbatim>\<open>inet_pton\<close> returns 1; \<open>inet_ntop v6 addr size\<close> is \<open>Some\<close> of the text when it fits
  into \<open>size\<close> bytes), the sizes of the socket address structures, the results of the
  system calls, and the entry points of \<^verbatim>\<open>sender.c\<close>, \<^verbatim>\<open>receiver.c\<close>, \<^verbatim>\<open>log.c\<close>,
  \<^verbatim>\<open>addr.c\<close> and \<^verbatim>\<open>screen.h\<close> that \<^verbatim>\<open>mcjoin.c\<close> calls.
\<close>

record 'w env =
  host_order :: byteorder
  inet_pton :: "bool \<Rightarrow> string \<Rightarrow> byte list option"
  inet_ntop :: "bool \<Rightarrow> byte list \<Rightarrow> nat \<Rightarrow> string option"
  sizeof_sockaddr_in :: nat
  sizeof_sockaddr_in6 :: nat
  geteuid :: nat
  getrlimit_rc :: int
  setrlimit_rc :: int
  daemonize :: int
  ttsize :: "'w state \<Rightarrow> int \<times> int"
  ifdefault :: string
  log_level :: "string \<Rightarrow> int"
  sender_init :: "'w state \<Rightarrow> int \<times> 'w state"
  receiver_init :: "'w state \<Rightarrow> int \<times> 'w state"
  sender :: "'w state \<Rightarrow> int \<times> 'w state"
  receiver :: "nat \<Rightarrow> 'w state \<Rightarrow> int \<times> 'w state"

text \<open>The initialisers of the globals (lines 42-66).\<close>

definition init_state :: "hdr \<Rightarrow> 'w \<Rightarrow> 'w state" where
  "init_state H w =
     \<lparr>old = 0, join = 1, foreground = 1, period = 100000, width = 80, height = 24,
      bytes = 100, count_global = 0, port = DEFAULT_PORT H, ttl = 1, ident = [],
      need4 = 0, need6 = 0, groups = [], iface = [], running = 1, winchg = 0, wait = 0,
      out = [], world = w\<rparr>"

text \<open>An entry of \<^verbatim>\<open>groups\<close> as \<^verbatim>\<open>memset(&groups[i], 0, sizeof(groups[0]))\<close> leaves it.\<close>

definition zero_sockaddr :: sockaddr where
  "zero_sockaddr = \<lparr>sa_family = AF_UNSPEC, sa_port = 0, sa_addr = replicate 16 0\<rparr>"

definition zero_gr :: "hdr \<Rightarrow> gr" where
  "zero_gr H =
     \<lparr>count = 0, gaps = 0, source = None, group = [], src = zero_sockaddr, grp = zero_sockaddr,
      status = replicate (STATUS_HISTORY H) (CHR 0x00), spin = 0\<rparr>"

subsection \<open>\<^verbatim>\<open>usage\<close> (lines 287-318)\<close>

definition usage :: "'w env \<Rightarrow> int \<Rightarrow> 'w state \<Rightarrow> int \<times> 'w state" where
  "usage E code s =
     (code, s\<lparr>iface := (if iface s = [] then ifdefault E else iface s), out := out s @ [USAGE]\<rparr>)"

subsection \<open>Expansion of the group specifications (lines 462-542)\<close>

text \<open>
  The inner loop, \<^verbatim>\<open>for (j = 0; j < num && group_num < NELEMS(groups); j++)\<close>, with \<open>n\<close>
  the iterations left (\<open>num - j\<close>): \<open>buf\<close> is the C string at the start of the buffer
  \<^verbatim>\<open>buf\<close>, \<open>g\<close> the C string that \<^verbatim>\<open>group\<close> points to. The result of \<^verbatim>\<open>inet_ntop\<close> is not
  looked at: when it fails, \<^verbatim>\<open>buf\<close> is as it was, and \<^verbatim>\<open>group = buf\<close> all the same.
\<close>

fun expand_loop ::
  "hdr \<Rightarrow> 'w env \<Rightarrow> nat \<Rightarrow> string option \<Rightarrow> string \<Rightarrow> string \<Rightarrow> 'w state
   \<Rightarrow> (int \<times> 'w state) + 'w state" where
  "expand_loop H E 0 source' buf g s = Inr s"
| "expand_loop H E (Suc n) source' buf g s =
     (if \<not> group_num s < MAX_NUM_GROUPS H then Inr s
      else
        (let v6 = (CHR '':'' \<in> set g)
         in case inet_pton E v6 g of
              None \<Rightarrow> Inl (usage E 1 (s\<lparr>out := out s @ [ERROR ''%s is not a valid multicast group'']\<rparr>))
            | Some a \<Rightarrow>
                (let s' = s\<lparr>groups := groups s @ [(zero_gr H)\<lparr>source := source', group := g\<rparr>]\<rparr>;
                     a' = (if v6 then step_in6_addr (host_order E) a
                           else step_in_addr (host_order E) a);
                     len = (if v6 then sizeof_sockaddr_in6 E else sizeof_sockaddr_in E);
                     buf' = (case inet_ntop E v6 a' len of Some t \<Rightarrow> t | None \<Rightarrow> buf)
                 in expand_loop H E n source' buf' buf' s')))"

text \<open>
  The body of the outer loop for one argument. The test
  \<^verbatim>\<open>num < 1 || (num + group_num) >= NELEMS(groups)\<close> adds in \<^verbatim>\<open>size_t\<close>; its second part
  is reached with \<open>1 \<le> num < 2 ^ 31\<close> only, where the sum does not wrap.
\<close>

definition expand_arg :: "hdr \<Rightarrow> 'w env \<Rightarrow> string \<Rightarrow> 'w state \<Rightarrow> (int \<times> 'w state) + 'w state" where
  "expand_arg H E arg s =
     (let buf = strlcpy arg (INET_ADDRSTR_LEN H + 1);
          (buf, num) = (case cut_at CHR ''+'' buf of
                          Some (b, n) \<Rightarrow> (b, atoi n)
                        | None \<Rightarrow> (buf, 1));
          (source', g, buf) = (case cut_at CHR '','' buf of
                                Some (sr, gp) \<Rightarrow> (Some sr, gp, sr)
                              | None \<Rightarrow> (None, buf, buf))
      in if num < 1 \<or> int (MAX_NUM_GROUPS H) \<le> num + int (group_num s)
         then Inl (usage E 1
                (s\<lparr>out := out s @ [ERROR ''Invalid number of groups given (%d), or max (%zd) reached.'']\<rparr>))
         else expand_loop H E (nat num) source' buf g s)"




fun expand_args ::
  "hdr \<Rightarrow> 'w env \<Rightarrow> string list \<Rightarrow> 'w state \<Rightarrow> (int \<times> 'w state) + 'w state" where
  "expand_args H E [] s = Inr s"
| "expand_args H E (arg # args) s =
     (case expand_arg H E arg s of
        Inl r \<Rightarrow> Inl r
      | Inr s' \<Rightarrow> expand_args H E args s')"

subsection \<open>Resolution of the group table (lines 544-585)\<close>

text \<open>
  The body of the loop for entry \<open>i\<close>. The result of \<^verbatim>\<open>inet_pton\<close> is not looked at: when
  it fails the address bytes stay as they were. The spinner cursor starts at the code
  of the last character of the group text.
\<close>

definition resolve_step :: "hdr \<Rightarrow> 'w env \<Rightarrow> 'w state \<Rightarrow> nat \<Rightarrow> 'w state" where
  "resolve_step H E s i =
     (let g = groups s ! i;
          v6 = (CHR '':'' \<in> set (group g));
          fam = (if v6 then AF_INET6 else AF_INET);
          pton = (\<lambda>t sa. case inet_pton E v6 t of Some a \<Rightarrow> a | None \<Rightarrow> sa_addr sa);
          grp' = \<lparr>sa_family = fam, sa_port = word_of_int (port s), sa_addr = pton (group g) (grp g)\<rparr>;
          src' = (case source g of
                    None \<Rightarrow> src g
                  | Some t \<Rightarrow> \<lparr>sa_family = fam, sa_port = 0, sa_addr = pton t (src g)\<rparr>);
          g' = g\<lparr>grp := grp', src := src',
                 status := replicate (STATUS_HISTORY H - 1) CHR '' ''
                           @ drop (STATUS_HISTORY H - 1) (status g),
                 spin := word_of_nat (of_char (last (group g)))\<rparr>;
          s' = s\<lparr>groups := (groups s)[i := g']\<rparr>
      in if v6 then s'\<lparr>need6 := need6 s + 1\<rparr> else s'\<lparr>need4 := need4 s + 1\<rparr>)"

definition resolve :: "hdr \<Rightarrow> 'w env \<Rightarrow> 'w state \<Rightarrow> 'w state" where
  "resolve H E s = foldl (resolve_step H E) s [0..<group_num s]"

subsection \<open>The status history: \<^verbatim>\<open>update\<close> and \<^verbatim>\<open>spin\<close> (lines 70-94)\<close>

text \<open>
  \<^verbatim>\<open>memmove(a, &a[1], n)\<close> on an array: the bytes 0 to \<open>n - 1\<close> get the bytes 1 to \<open>n\<close>,
  the rest stay.
\<close>

definition memmove_down :: "nat \<Rightarrow> 'a list \<Rightarrow> 'a list" where
  "memmove_down n a = take n (drop 1 a) @ drop n a"

text \<open>
  The body of the loop of \<^verbatim>\<open>update\<close> for one entry:
  \<^verbatim>\<open>memmove(g->status, &g->status[1], STATUS_HISTORY - 1); g->status[STATUS_POS] = ' ';\<close>
\<close>

definition advance :: "hdr \<Rightarrow> gr \<Rightarrow> gr" where
  "advance H g =
     g\<lparr>status := (memmove_down (STATUS_HISTORY H - 1) (status g))[STATUS_POS H := CHR '' '']\<rparr>"

definition update :: "hdr \<Rightarrow> 'w state \<Rightarrow> 'w state" where
  "update H s =
     foldl (\<lambda>s i. s\<lparr>groups := (groups s)[i := advance H (groups s ! i)]\<rparr>) s [0..<group_num s]"

text \<open>
  \<^verbatim>\<open>spin\<close> (the field \<open>spin\<close> of \<open>gr\<close> has the name already): the glyph it returns and the
  entry it leaves. The spinner string is \<^verbatim>\<open>|/-\\<close>.
\<close>

definition spin_gr :: "hdr \<Rightarrow> gr \<Rightarrow> char \<times> gr" where
  "spin_gr H g =
     (let spinner = [CHR ''|'', CHR ''/'', CHR ''-'', CHR 0x5C];
          num = length spinner;
          act = spinner ! (unat (spin g) mod num)
      in (act, if status g ! STATUS_POS H = CHR ''.'' then g\<lparr>spin := spin g + 1\<rparr> else g))"

text \<open>
  Modelled from the spec: the receiver's and the sender's marking of activity is not in
  the source at hand. "\<open>mark(record, symbol)\<close> writes \<open>symbol\<close> into the most-recent slot
  of \<open>record.statusHistory\<close>", the slot \<^verbatim>\<open>STATUS_POS\<close> that \<^verbatim>\<open>update\<close> blanks and \<^verbatim>\<open>spin\<close> and
  \<^verbatim>\<open>plotter_show\<close> read.
\<close>

definition mark :: "hdr \<Rightarrow> gr \<Rightarrow> char \<Rightarrow> gr" where
  "mark H g c = g\<lparr>status := (status g)[STATUS_POS H := c]\<rparr>"

text \<open>
  The history of an entry that the program has set up and nothing has marked: the
  zeroed array after \<^verbatim>\<open>memset(groups[i].status, ' ', STATUS_HISTORY - 1)\<close> (line 583),
  that is, blanks up to the terminating NUL in the last byte.
\<close>

definition blank_history :: "hdr \<Rightarrow> string" where
  "blank_history H = replicate (STATUS_HISTORY H - 1) CHR '' '' @ [CHR 0x00]"

subsection \<open>The timer handler \<^verbatim>\<open>plotter_show\<close> (lines 96-157)\<close>

text \<open>
  One row of the fancy display: \<^verbatim>\<open>act = spin(g)\<close>, then the row with the source and
  group text cut to 34 characters, the glyph, the C string at \<^verbatim>\<open>&g->status[spos]\<close> and
  the packet count. The C string ends at the first NUL of the array from \<open>spos\<close> on. When
  there is none (for a terminal of 50 columns or less \<open>spos\<close> is \<^verbatim>\<open>STATUS_HISTORY\<close> or
  more, past the array), \<^verbatim>\<open>fprintf\<close> reads on into the memory that follows the array;
  what it prints then is not modelled, and the text of the row is \<open>None\<close>.
\<close>

definition plot_row :: "hdr \<Rightarrow> int \<Rightarrow> 'w state \<Rightarrow> nat \<Rightarrow> 'w state" where
  "plot_row H spos s i =
     (let (act, g) = spin_gr H (groups s ! i);
          sgbuf = take 34 ((case source g of None \<Rightarrow> ''*'' | Some t \<Rightarrow> t) @ '','' @ group g);
          tail = drop (nat spos) (status g);
          shown = (if CHR 0x00 \<in> set tail then Some (takeWhile (\<lambda>c. c \<noteq> CHR 0x00) tail)
                   else None)
      in s\<lparr>groups := (groups s)[i := g], out := out s @ [ROW sgbuf act shown (count g)]\<rparr>)"

text \<open>
  \<^verbatim>\<open>plotter_show(signo)\<close>; \<open>signo\<close> is not used. In the old output mode the handler
  calls \<^verbatim>\<open>progress()\<close> when an entry shows activity; otherwise it prints the host and
  date line and one row per entry. Both branches end with \<^verbatim>\<open>update()\<close>. The statics of
  the host line (\<^verbatim>\<open>once\<close>, \<^verbatim>\<open>hostname\<close>, \<^verbatim>\<open>buf\<close>, \<^verbatim>\<open>addr\<close>) only feed that line.
\<close>

definition plotter_show :: "hdr \<Rightarrow> int \<Rightarrow> 'w state \<Rightarrow> 'w state" where
  "plotter_show H signo s =
     (if old s \<noteq> 0
      then
        (let act = foldl (\<lambda>act i. if status (groups s ! i) ! STATUS_POS H = CHR ''.''
                                   then (if act = CHR ''.'' then CHR ''*'' else CHR ''.'')
                                   else act)
                         (CHR 0x00) [0..<group_num s];
             s1 = (if act \<noteq> CHR 0x00 then s\<lparr>out := out s @ [PROGRESS]\<rparr> else s)
         in update H s1)
      else
        (let s1 = s\<lparr>out := out s @ [HOSTDATE]\<rparr>;
             swidth = width s1 - 50;
             swidth = (if swidth > int (STATUS_HISTORY H) then int (STATUS_HISTORY H) else swidth);
             spos = int (STATUS_HISTORY H) - swidth;
             s2 = foldl (plot_row H spos) s1 [0..<group_num s1]
         in update H s2))"

subsection \<open>\<^verbatim>\<open>show_stats\<close>, \<^verbatim>\<open>redraw\<close> and the signal handlers (lines 159-285)\<close>

definition show_stats :: "'w state \<Rightarrow> 'w state" where
  "show_stats s =
     (if join s \<noteq> 0
      then
        (let s1 = foldl (\<lambda>s i. s\<lparr>out := out s @ [STATS_GROUP (group (groups s ! i))
                                                   (count (groups s ! i)) (gaps (groups s ! i))]\<rparr>)
                        s [0..<group_num s];
             total_count = foldl (\<lambda>t i. t + count (groups s ! i)) 0 [0..<group_num s]
         in s1\<lparr>out := out s1 @ [STATS_TOTAL total_count]\<rparr>)
      else s)"

text \<open>
  \<^verbatim>\<open>redraw(signo)\<close>. The calls into the terminal driver and \<^verbatim>\<open>log_show\<close> only draw; they
  are kept as \<open>SCREEN\<close> entries of the output.
\<close>

definition redraw :: "hdr \<Rightarrow> 'w env \<Rightarrow> int \<Rightarrow> 'w state \<Rightarrow> 'w state" where
  "redraw H E signo s =
     (if old s \<noteq> 0 \<or> foreground s = 0 then s
      else
        (let s1 = (if signo \<noteq> 0
                   then (let (w, h) = ttsize E s in s\<lparr>width := w, height := h, winchg := 0\<rparr>)
                   else s);
             title = (if join s1 = 0 then ''mcjoin :: sending multicast''
                      else ''mcjoin :: receiving multicast'');
             s2 = s1\<lparr>out := out s1
                          @ (if signo = 0 then [SCREEN ''ttraw'', SCREEN ''hidecursor''] else [])
                          @ [SCREEN ''cls'', SCREEN title, SCREEN ''ctrl-c to exit'',
                             SCREEN ''SOURCE,GROUP PLOTTER PACKETS'', SCREEN ''TIME LOG'']\<rparr>
         in if signo \<noteq> 0
            then (let s3 = plotter_show H signo s2 in s3\<lparr>out := out s3 @ [SCREEN ''log_show'']\<rparr>)
            else s2))"

definition sigwinch_cb :: "'w state \<Rightarrow> 'w state" where
  "sigwinch_cb s = s\<lparr>winchg := 1\<rparr>"

text \<open>
  \<^verbatim>\<open>exit_loop\<close>, the handler of SIGINT, SIGHUP and SIGTERM. Its \<^verbatim>\<open>DEBUG\<close> line goes to
  the log of \<^verbatim>\<open>log.c\<close> and is not kept.
\<close>

definition exit_loop :: "'w state \<Rightarrow> 'w state" where
  "exit_loop s = s\<lparr>running := 0\<rparr>"

subsection \<open>The run loop (lines 244-279)\<close>

definition loop_init :: "'w env \<Rightarrow> 'w state \<Rightarrow> int \<times> 'w state" where
  "loop_init E s = (if join s = 0 then sender_init E s else receiver_init E s)"

text \<open>One iteration: \<^verbatim>\<open>redraw(winchg)\<close>, then one call of the sender or the receiver.\<close>

definition loop_body :: "hdr \<Rightarrow> 'w env \<Rightarrow> 'w state \<Rightarrow> int \<times> 'w state" where
  "loop_body H E s =
     (let s1 = redraw H E (winchg s) s
      in if join s1 = 0 then sender E s1 else receiver E (count_global s1) s1)"

text \<open>
  \<^verbatim>\<open>while (!rc && running) { ... }\<close> with fuel: \<open>None\<close> when the fuel runs out before the
  loop ends. The loop has no bound of its own.
\<close>

fun loop_while :: "hdr \<Rightarrow> 'w env \<Rightarrow> nat \<Rightarrow> int \<times> 'w state \<Rightarrow> (int \<times> 'w state) option" where
  "loop_while H E 0 (rc, s) = (if rc = 0 \<and> running s \<noteq> 0 then None else Some (rc, s))"
| "loop_while H E (Suc n) (rc, s) =
     (if rc = 0 \<and> running s \<noteq> 0 then loop_while H E n (loop_body H E s) else Some (rc, s))"

text \<open>What follows the loop: the statistics when \<open>rc\<close> is 0, and the terminal is restored.\<close>

definition loop_exit :: "int \<Rightarrow> 'w state \<Rightarrow> 'w state" where
  "loop_exit rc s =
     (let s1 = (if rc = 0 then show_stats s else s)
      in if foreground s1 \<noteq> 0 \<and> old s1 = 0
         then s1\<lparr>out := out s1 @ [SCREEN ''gotoxy'', SCREEN ''showcursor'', SCREEN ''ttcooked'']\<rparr>
         else s1)"

definition loop :: "hdr \<Rightarrow> 'w env \<Rightarrow> nat \<Rightarrow> 'w state \<Rightarrow> (int \<times> 'w state) option" where
  "loop H E n s =
     (case loop_while H E n (loop_init E s) of
        None \<Rightarrow> None
      | Some (rc, s1) \<Rightarrow> Some (rc, loop_exit rc s1))"

text \<open>
  The state after the initialisation and \<open>k\<close> iterations, whatever the loop test says:
  the \<open>k\<close>-th call of the sender or receiver returned its first component.
\<close>

fun iterations :: "hdr \<Rightarrow> 'w env \<Rightarrow> nat \<Rightarrow> 'w state \<Rightarrow> int \<times> 'w state" where
  "iterations H E 0 s = loop_init E s"
| "iterations H E (Suc k) s = loop_body H E (snd (iterations H E k s))"

subsection \<open>Termination signals during an iteration\<close>



subsection \<open>\<^verbatim>\<open>main\<close>: the options (lines 347-424)\<close>

text \<open>The conversion of a value to a 32-bit \<^verbatim>\<open>int\<close>.\<close>

definition to_int :: "int \<Rightarrow> int" where
  "to_int i = sint (word_of_int i :: 32 word)"

text \<open>
  The \<^verbatim>\<open>switch\<close> for one option \<open>c\<close> with its argument, as \<^verbatim>\<open>getopt\<close> hands them over
  (\<^verbatim>\<open>?\<close> for an option it does not know). \<open>Inl (code, s)\<close>: \<^verbatim>\<open>main\<close> returns \<open>code\<close>;
  \<open>Inr s\<close>: the \<^verbatim>\<open>break\<close>, the option loop goes on.
\<close>

definition option_switch ::
  "hdr \<Rightarrow> 'w env \<Rightarrow> char \<Rightarrow> string \<Rightarrow> 'w state \<Rightarrow> (int \<times> 'w state) + 'w state" where
  "option_switch H E c optarg s =
     (if c = CHR ''b'' then
        (let s1 = s\<lparr>bytes := to_size_t (atoi optarg)\<rparr>
         in if bytes s1 > BUFSZ H
            then Inl (1, s1\<lparr>out := out s1 @ [ERROR ''Too long payload, max %d bytes'']\<rparr>)
            else Inr s1)
      else if c = CHR ''c'' then Inr (s\<lparr>count_global := to_size_t (atoi optarg)\<rparr>)
      else if c = CHR ''d'' then Inr (s\<lparr>foreground := 0\<rparr>)
      else if c = CHR ''f'' then Inr (s\<lparr>period := to_int (atoi optarg * 1000)\<rparr>)
      else if c = CHR ''h'' then Inl (usage E 0 s)
      else if c = CHR ''i'' then
        (if length optarg \<ge> IFNAMSIZ H + 1
         then Inl (1, s\<lparr>out := out s @ [ERROR ''Too long interface name, max %zd chars.'']\<rparr>)
         else Inr (s\<lparr>iface := optarg\<rparr>))
      else if c = CHR ''j'' then Inr (s\<lparr>join := join s + 1\<rparr>)
      else if c = CHR ''l'' then
        (if log_level E optarg \<noteq> 0
         then Inl (1, s\<lparr>out := out s @ [ERROR ''Invalid log level: %s'']\<rparr>)
         else Inr s)
      else if c = CHR ''o'' then Inr (s\<lparr>old := old s + 1\<rparr>)
      else if c = CHR ''p'' then
        (let s1 = s\<lparr>port := atoi optarg\<rparr>
         in if port s1 < 1024 \<and> geteuid E \<noteq> 0
            then Inr (s1\<lparr>out := out s1 @ [ERROR ''Must be root to use privileged ports (< 1024)'']\<rparr>)
            else Inr s1)
      else if c = CHR ''s'' then Inr (s\<lparr>join := 0\<rparr>)
      else if c = CHR ''t'' then Inr (s\<lparr>ttl := word_of_int (atoi optarg)\<rparr>)
      else if c = CHR ''v'' then Inl (0, s\<lparr>out := out s @ [PRINTF (PACKAGE_VERSION H)]\<rparr>)
      else if c = CHR ''w'' then Inr (s\<lparr>wait := atoi optarg\<rparr>)
      else Inl (usage E 1 s))"

text \<open>\<^verbatim>\<open>while ((c = getopt(...)) != EOF) switch (c) ...\<close> over the options of the command line.\<close>

fun parse_options ::
  "hdr \<Rightarrow> 'w env \<Rightarrow> (char \<times> string) list \<Rightarrow> 'w state \<Rightarrow> (int \<times> 'w state) + 'w state" where
  "parse_options H E [] s = Inr s"
| "parse_options H E ((c, optarg) # opts) s =
     (case option_switch H E c optarg s of
        Inl r \<Rightarrow> Inl r
      | Inr s' \<Rightarrow> parse_options H E opts s')"

subsection \<open>\<^verbatim>\<open>main\<close> (lines 333-595)\<close>

definition progname :: "string \<Rightarrow> string" where
  "progname arg0 =
     (if CHR ''/'' \<in> set arg0 then rev (takeWhile (\<lambda>c. c \<noteq> CHR ''/'') (rev arg0)) else arg0)"

text \<open>
  \<^verbatim>\<open>main\<close> from its start to the raising of the file descriptor limit (lines 344-456):
  \<open>opts\<close> are the options and \<open>args\<close> the arguments after them (\<^verbatim>\<open>argv[optind]\<close>
  onwards). \<open>Inl (code, s)\<close>: the program has ended with \<open>code\<close>.
\<close>

definition startup ::
  "hdr \<Rightarrow> 'w env \<Rightarrow> string \<Rightarrow> (char \<times> string) list \<Rightarrow> string list \<Rightarrow> 'w state
   \<Rightarrow> (int \<times> 'w state) + 'w state" where
  "startup H E arg0 opts args s =
     (case parse_options H E opts (s\<lparr>ident := progname arg0\<rparr>) of
        Inl r \<Rightarrow> Inl r
      | Inr s1 \<Rightarrow>
          (let s2 = (if args = []
                     then s1\<lparr>groups := groups s1 @ [(zero_gr H)\<lparr>group := DEFAULT_GROUP H\<rparr>]\<rparr>
                     else s1)
           in if foreground s2 = 0 \<and> daemonize E \<noteq> 0
              then Inl (1, s2\<lparr>out := out s2 @ [PRINTF ''Failed backgrounding: %s'']\<rparr>)
              else
                (let s3 = (if foreground s2 \<noteq> 0 \<and> old s2 = 0
                           then (let (w, h) = ttsize E s2 in s2\<lparr>width := w, height := h\<rparr>)
                           else s2);
                     s4 = (if iface s3 = [] then s3\<lparr>iface := ifdefault E\<rparr> else s3)
                 in if getrlimit_rc E \<noteq> 0
                    then Inl (1, s4\<lparr>out := out s4 @ [ERROR ''Failed reading RLIMIT_NOFILE'']\<rparr>)
                    else if setrlimit_rc E \<noteq> 0
                    then Inl (1, s4\<lparr>out := out s4
                                       @ [ERROR ''Failed setting RLIMIT_NOFILE soft limit to %d'']\<rparr>)
                    else Inr s4)))"

text \<open>
  \<^verbatim>\<open>main\<close> up to the call of \<^verbatim>\<open>loop\<close> (lines 344-592). \<open>Inl (code, s)\<close>: the program has
  ended with \<open>code\<close> and the loop was not entered.
\<close>

definition before_loop ::
  "hdr \<Rightarrow> 'w env \<Rightarrow> string \<Rightarrow> (char \<times> string) list \<Rightarrow> string list \<Rightarrow> 'w state
   \<Rightarrow> (int \<times> 'w state) + 'w state" where
  "before_loop H E arg0 opts args s =
     (case startup H E arg0 opts args s of
        Inl r \<Rightarrow> Inl r
      | Inr s4 \<Rightarrow>
          (case expand_args H E args s4 of
             Inl r \<Rightarrow> Inl r
           | Inr s5 \<Rightarrow> Inr (resolve H E s5)))"

text \<open>
  \<^verbatim>\<open>main\<close>: the value it returns and the final state, \<open>None\<close> when the fuel of the loop
  runs out. \<open>w\<close> is the state of the world at the start.
\<close>

definition main ::
  "hdr \<Rightarrow> 'w env \<Rightarrow> nat \<Rightarrow> string \<Rightarrow> (char \<times> string) list \<Rightarrow> string list \<Rightarrow> 'w
   \<Rightarrow> (int \<times> 'w state) option" where
  "main H E n arg0 opts args w =
     (case before_loop H E arg0 opts args (init_state H w) of
        Inl r \<Rightarrow> Some r
      | Inr s \<Rightarrow> loop H E n s)"

subsection \<open>A platform and a set of header constants to run the program on\<close>

text \<open>
  The sizes and the C library of a Linux host (\<^verbatim>\<open>sizeof(struct sockaddr_in)\<close> is 16,
  \<^verbatim>\<open>sizeof(struct sockaddr_in6)\<close> is 28, \<^verbatim>\<open>INET6_ADDRSTRLEN\<close> is 46), an unprivileged
  user, and a sender and a receiver that do nothing but report the result \<open>rc\<close> and, the
  receiver, see a termination signal arrive when \<open>sig\<close> says so. Used only where a
  theorem runs the program on a concrete input.
\<close>

definition linux_env :: "int \<Rightarrow> bool \<Rightarrow> unit env" where
  "linux_env rc sig =
     \<lparr>host_order = LittleEndian, inet_pton = libc_inet_pton, inet_ntop = libc_inet_ntop,
      sizeof_sockaddr_in = 16, sizeof_sockaddr_in6 = 28, geteuid = 1000,
      getrlimit_rc = 0, setrlimit_rc = 0, daemonize = 0, ttsize = (\<lambda>s. (80, 24)),
      ifdefault = ''eth0'', log_level = (\<lambda>l. 0),
      sender_init = (\<lambda>s. (0, s)), receiver_init = (\<lambda>s. (0, s)),
      sender = (\<lambda>s. (rc, if sig then exit_loop s else s)),
      receiver = (\<lambda>c s. (rc, if sig then exit_loop s else s))\<rparr>"

definition small_hdr :: hdr where
  "small_hdr =
     \<lparr>MAX_NUM_GROUPS = 8, STATUS_HISTORY = 6, STATUS_POS = 4, INET_ADDRSTR_LEN = 46,
      BUFSZ = 1606, IFNAMSIZ = 16, DEFAULT_GROUP = ''225.1.2.3'', DEFAULT_PORT = 1234,
      PACKAGE_VERSION = ''2.7''\<rparr>"

section \<open>Properties\<close>

subsection \<open>Bytes and byte order\<close>

lemma unat_byte_lt: "unat (b :: byte) < 256"
  using unsigned_less[of b, where 'a=nat] by simp

lemma be_val4: "be_val [a, b, c, d] = unat a * 2 ^ 24 + unat b * 2 ^ 16 + unat c * 2 ^ 8 + unat d"
  by (simp add: be_val_def)

lemma be_val4_lt: "be_val [a, b, c, d] < 2 ^ 32"
  using unat_byte_lt[of a] unat_byte_lt[of b] unat_byte_lt[of c] unat_byte_lt[of d]
  by (simp add: be_val4)

lemma length4E: "length xs = 4 \<Longrightarrow> \<exists>a b c d. xs = [a, b, c, d]"
  by (auto simp: length_Suc_conv eval_nat_numeral)

lemma digit_step:
  fixes q r :: nat
  assumes "r < 256"
  shows "(q * 256 + r) div 256 = q" and "(q * 256 + r) mod 256 = r"
  using assms by simp_all

lemma digits4:
  fixes x y z w :: nat
  assumes "x < 256" "y < 256" "z < 256" "w < 256"
  shows "(x * 16777216 + y * 65536 + z * 256 + w) div 16777216 mod 256 = x"
    and "(x * 16777216 + y * 65536 + z * 256 + w) div 65536 mod 256 = y"
    and "(x * 16777216 + y * 65536 + z * 256 + w) div 256 mod 256 = z"
    and "(x * 16777216 + y * 65536 + z * 256 + w) mod 256 = w"
proof -
  let ?n = "x * 16777216 + y * 65536 + z * 256 + w"
  have n: "?n = ((x * 256 + y) * 256 + z) * 256 + w" by simp
  have d1: "?n div 256 = (x * 256 + y) * 256 + z"
    unfolding n using assms(4) by (rule digit_step(1))
  have d2: "?n div 65536 = x * 256 + y"
    using div_mult2_eq[of ?n 256 256] d1 digit_step(1)[OF assms(3), of "x * 256 + y"] by simp
  have d3: "?n div 16777216 = x"
    using div_mult2_eq[of ?n 65536 256] d2 digit_step(1)[OF assms(2), of x] by simp
  show "?n div 16777216 mod 256 = x" using d3 assms(1) by simp
  show "?n div 65536 mod 256 = y" using d2 digit_step(2)[OF assms(2), of x] by simp
  show "?n div 256 mod 256 = z" using d1 digit_step(2)[OF assms(3), of "x * 256 + y"] by simp
  show "?n mod 256 = w" unfolding n using assms(4) by (rule digit_step(2))
qed

lemma compose4:
  fixes v :: nat
  shows "(v div 16777216 mod 256) * 16777216 + (v div 65536 mod 256) * 65536
         + (v div 256 mod 256) * 256 + v mod 256 = v mod 4294967296"
proof -
  have a: "v mod 4294967296 = 16777216 * (v div 16777216 mod 256) + v mod 16777216"
    using mod_mult2_eq[of v 16777216 256] by simp
  have b: "v mod 16777216 = 65536 * (v div 65536 mod 256) + v mod 65536"
    using mod_mult2_eq[of v 65536 256] by simp
  have c: "v mod 65536 = 256 * (v div 256 mod 256) + v mod 256"
    using mod_mult2_eq[of v 256 256] by simp
  show ?thesis using a b c by simp
qed



lemma digits4p:
  fixes x y z w :: nat
  assumes "x < 256" "y < 256" "z < 256" "w < 256"
  shows "(x * 2 ^ 24 + y * 2 ^ 16 + z * 2 ^ 8 + w) div 2 ^ 24 mod 256 = x"
    and "(x * 2 ^ 24 + y * 2 ^ 16 + z * 2 ^ 8 + w) div 2 ^ 16 mod 256 = y"
    and "(x * 2 ^ 24 + y * 2 ^ 16 + z * 2 ^ 8 + w) div 2 ^ 8 mod 256 = z"
    and "(x * 2 ^ 24 + y * 2 ^ 16 + z * 2 ^ 8 + w) mod 256 = w"
  using digits4[OF assms] by simp_all

lemma be_bytes4_be_val: "be_bytes4 (be_val [a, b, c, d]) = [a, b, c, d]"
proof -
  note lt = unat_byte_lt[of a] unat_byte_lt[of b] unat_byte_lt[of c] unat_byte_lt[of d]
  have "be_bytes4 (be_val [a, b, c, d])
        = [word_of_nat (unat a), word_of_nat (unat b), word_of_nat (unat c), word_of_nat (unat d)]"
    by (simp only: be_bytes4_def be_val4 digits4p[OF lt])
  then show ?thesis by simp
qed

lemma be_val_be_bytes4: "be_val (be_bytes4 v) = v mod 2 ^ 32"
  using compose4[of v] by (simp add: be_val4 be_bytes4_def unat_of_nat)

lemma length_be_bytes4: "length (be_bytes4 v) = 4"
  by (simp add: be_bytes4_def)

lemma length_store32: "length (store32 bo w) = 4"
  by (cases bo) (simp_all add: store32_def length_be_bytes4)

lemma store32_load32: "length m = 4 \<Longrightarrow> store32 bo (load32 bo m) = m"
proof -
  assume "length m = 4"
  then obtain a b c d where m: "m = [a, b, c, d]" using length4E by blast
  have u: "\<And>a b c d. unat (word_of_nat (be_val [a, b, c, d]) :: 32 word) = be_val [a, b, c, d]"
    using be_val4_lt by (simp add: unat_of_nat)
  show ?thesis
    by (cases bo) (simp_all add: m load32_def store32_def u be_bytes4_be_val)
qed

lemma load32_store32: "load32 bo (store32 bo w) = w"
proof -
  have "unat w mod 2 ^ 32 = unat w" 
    using unsigned_less[of w, where 'a=nat] by simp
  then show ?thesis
    by (cases bo) (simp_all add: load32_def store32_def be_val_be_bytes4)
qed

lemma ntohl_load32: "length m = 4 \<Longrightarrow> ntohl bo (load32 bo m) = word_of_nat (be_val m)"
  by (simp add: ntohl_def store32_load32) (simp add: load32_def)

lemma store32_htonl: "store32 bo (htonl bo w) = be_bytes4 (unat w)"
  by (simp add: htonl_def store32_load32 length_store32) (simp add: store32_def)

lemma step_in_addr_be:
  assumes "length a = 4"
  shows "step_in_addr bo a = be_bytes4 ((be_val a + 1) mod 2 ^ 32)"
proof -
  have "unat (word_of_nat (be_val a) + 1 :: 32 word) = (be_val a + 1) mod 2 ^ 32"
    by (simp add: unat_word_ariths unat_of_nat mod_simps)
  then show ?thesis
    using assms by (simp add: step_in_addr_def ntohl_load32 store32_htonl)
qed

lemma step_in6_addr_be:
  assumes "length a = 16"
  shows "step_in6_addr bo a = take 12 a @ be_bytes4 ((be_val (drop 12 a) + 1) mod 2 ^ 32)"
proof -
  have l: "length (drop 12 a) = 4" using assms by simp
  have "unat (word_of_nat (be_val (drop 12 a)) + 1 :: 32 word)
        = (be_val (drop 12 a) + 1) mod 2 ^ 32"
    by (simp add: unat_word_ariths unat_of_nat mod_simps)
  then show ?thesis
    using assms by (simp add: step_in6_addr_def ntohl_load32[OF l] store32_htonl)
qed


subsection \<open>Running the expansion on a command line\<close>

lemma expand_loop_numeral:
  "expand_loop H E (numeral k) sr buf g s =
     (if \<not> group_num s < MAX_NUM_GROUPS H then Inr s
      else
        (let v6 = (CHR '':'' \<in> set g)
         in case inet_pton E v6 g of
              None \<Rightarrow> Inl (usage E 1 (s\<lparr>out := out s @ [ERROR ''%s is not a valid multicast group'']\<rparr>))
            | Some a \<Rightarrow>
                (let s' = s\<lparr>groups := groups s @ [(zero_gr H)\<lparr>source := sr, group := g\<rparr>]\<rparr>;
                     a' = (if v6 then step_in6_addr (host_order E) a
                           else step_in_addr (host_order E) a);
                     len = (if v6 then sizeof_sockaddr_in6 E else sizeof_sockaddr_in E);
                     buf' = (case inet_ntop E v6 a' len of Some t \<Rightarrow> t | None \<Rightarrow> buf)
                 in expand_loop H E (pred_numeral k) sr buf' buf' s')))"
  by (simp only: numeral_eq_Suc expand_loop.simps)

lemmas atoi_defs = atoi_def strtol10_def isspace_def isdigit_def dec_val_def

lemmas run_defs = expand_arg_def strlcpy_def cut_at_def usage_def
  linux_env_def small_hdr_def expand_loop_numeral Let_def

lemma atoi_2: "atoi ''2'' = 2" by (simp add: atoi_defs)
lemma atoi_4: "atoi ''4'' = 4" by (simp add: atoi_defs)
lemma atoi_5: "atoi ''5'' = 5" by (simp add: atoi_defs)

lemma pton_239_1_1_1: "libc_inet_pton False ''239.1.1.1'' = Some [239, 1, 1, 1]" by (simp add: libc_defs)
lemma pton_239_1_1_2: "libc_inet_pton False ''239.1.1.2'' = Some [239, 1, 1, 2]" by (simp add: libc_defs)
lemma pton_239_1_1_3: "libc_inet_pton False ''239.1.1.3'' = Some [239, 1, 1, 3]" by (simp add: libc_defs)
lemma pton_239_1_1_4: "libc_inet_pton False ''239.1.1.4'' = Some [239, 1, 1, 4]" by (simp add: libc_defs)
lemma ntop_239_1_1_2: "libc_inet_ntop False [239, 1, 1, 2] 16 = Some ''239.1.1.2''" by (simp add: libc_defs)
lemma ntop_239_1_1_3: "libc_inet_ntop False [239, 1, 1, 3] 16 = Some ''239.1.1.3''" by (simp add: libc_defs)
lemma ntop_239_1_1_4: "libc_inet_ntop False [239, 1, 1, 4] 16 = Some ''239.1.1.4''" by (simp add: libc_defs)
lemma ntop_239_1_1_5: "libc_inet_ntop False [239, 1, 1, 5] 16 = Some ''239.1.1.5''" by (simp add: libc_defs)
lemma step_239_1_1_1: "step_in_addr bo [239, 1, 1, 1] = [239, 1, 1, 2]"
  by (simp add: step_in_addr_be be_val_def be_bytes4_def)
lemma step_239_1_1_2: "step_in_addr bo [239, 1, 1, 2] = [239, 1, 1, 3]"
  by (simp add: step_in_addr_be be_val_def be_bytes4_def)
lemma step_239_1_1_3: "step_in_addr bo [239, 1, 1, 3] = [239, 1, 1, 4]"
  by (simp add: step_in_addr_be be_val_def be_bytes4_def)
lemma step_239_1_1_4: "step_in_addr bo [239, 1, 1, 4] = [239, 1, 1, 5]"
  by (simp add: step_in_addr_be be_val_def be_bytes4_def)

lemma pton_ff08_1: "libc_inet_pton True ''ff08::1'' = Some [255, 8, 0, 0, 0, 0, 0, 0, 0, 0, 0, 0, 0, 0, 0, 1]"
  by (simp add: libc_defs)
lemma pton_ff08_2: "libc_inet_pton True ''ff08::2'' = Some [255, 8, 0, 0, 0, 0, 0, 0, 0, 0, 0, 0, 0, 0, 0, 2]"
  by (simp add: libc_defs)
lemma ntop_ff08_2: "libc_inet_ntop True [255, 8, 0, 0, 0, 0, 0, 0, 0, 0, 0, 0, 0, 0, 0, 2] 28 = Some ''ff08::2''"
  by (simp add: libc_defs)
lemma ntop_ff08_3: "libc_inet_ntop True [255, 8, 0, 0, 0, 0, 0, 0, 0, 0, 0, 0, 0, 0, 0, 3] 28 = Some ''ff08::3''"
  by (simp add: libc_defs)
lemma step_ff08_1: "step_in6_addr bo [255, 8, 0, 0, 0, 0, 0, 0, 0, 0, 0, 0, 0, 0, 0, 1]
                    = [255, 8, 0, 0, 0, 0, 0, 0, 0, 0, 0, 0, 0, 0, 0, 2]"
  by (simp add: step_in6_addr_be be_val_def be_bytes4_def)
lemma step_ff08_2: "step_in6_addr bo [255, 8, 0, 0, 0, 0, 0, 0, 0, 0, 0, 0, 0, 0, 0, 2]
                    = [255, 8, 0, 0, 0, 0, 0, 0, 0, 0, 0, 0, 0, 0, 0, 3]"
  by (simp add: step_in6_addr_be be_val_def be_bytes4_def)

lemma startup_plain:
  "args \<noteq> [] \<Longrightarrow>
   startup small_hdr (linux_env rc sig) ''mcjoin'' [] args (init_state small_hdr ())
   = Inr ((init_state small_hdr ())\<lparr>ident := ''mcjoin'', iface := ''eth0''\<rparr>)"
  by (simp add: startup_def progname_def linux_env_def init_state_def small_hdr_def)

lemma run_239_1_1_1_plus_4:
  assumes "group_num s < 4"
  shows "expand_arg small_hdr (linux_env rc sig) ''239.1.1.1+4'' s
   = Inr (s\<lparr>groups := groups s @
            map (\<lambda>t. (zero_gr small_hdr)\<lparr>source := None, group := t\<rparr>)
                [''239.1.1.1'', ''239.1.1.2'', ''239.1.1.3'', ''239.1.1.4'']\<rparr>)"
  using assms
  by (simp add: run_defs atoi_4 pton_239_1_1_1 pton_239_1_1_2 pton_239_1_1_3 pton_239_1_1_4
      ntop_239_1_1_2 ntop_239_1_1_3 ntop_239_1_1_4 ntop_239_1_1_5
      step_239_1_1_1 step_239_1_1_2 step_239_1_1_3 step_239_1_1_4)

lemma run_ff08_1_plus_2:
  assumes "group_num s < 6"
  shows "expand_arg small_hdr (linux_env rc sig) ''ff08::1+2'' s
   = Inr (s\<lparr>groups := groups s @
            map (\<lambda>t. (zero_gr small_hdr)\<lparr>source := None, group := t\<rparr>) [''ff08::1'', ''ff08::2'']\<rparr>)"
  using assms
  by (simp add: run_defs atoi_2 pton_ff08_1 pton_ff08_2 ntop_ff08_2 ntop_ff08_3 step_ff08_1 step_ff08_2)

subsection \<open>The address step\<close>

text \<open>
  Claim C1. For every IPv4 address (four bytes) the step reads the address as a
  big-endian 32-bit integer, adds one (modulo \<open>2 ^ 32\<close>) and writes it back in the same
  order, whatever the byte order of the host; for every IPv6 address (sixteen bytes) it
  does so with the bytes 12 to 15 and leaves the bytes 0 to 11 as they are. Stepping
  239.1.1.1 three times gives 239.1.1.2, 239.1.1.3 and 239.1.1.4, and ff08::1 steps to
  ff08::2, on the bytes and in the group texts that the expansion of \<^verbatim>\<open>239.1.1.1+4\<close>
  and \<^verbatim>\<open>ff08::1+2\<close> registers.
\<close>

theorem address_step_increment:
  assumes "length a4 = 4" and "length a6 = 16"
  shows "length (step_in_addr bo a4) = 4 \<and>
         be_val (step_in_addr bo a4) = (be_val a4 + 1) mod 2 ^ 32 \<and>
         length (step_in6_addr bo a6) = 16 \<and>
         take 12 (step_in6_addr bo a6) = take 12 a6 \<and>
         be_val (drop 12 (step_in6_addr bo a6)) = (be_val (drop 12 a6) + 1) mod 2 ^ 32 \<and>
         step_in_addr bo [239, 1, 1, 1] = [239, 1, 1, 2] \<and>
         step_in_addr bo [239, 1, 1, 2] = [239, 1, 1, 3] \<and>
         step_in_addr bo [239, 1, 1, 3] = [239, 1, 1, 4] \<and>
         step_in6_addr bo [255, 8, 0, 0, 0, 0, 0, 0, 0, 0, 0, 0, 0, 0, 0, 1]
           = [255, 8, 0, 0, 0, 0, 0, 0, 0, 0, 0, 0, 0, 0, 0, 2] \<and>
         map group (groups (projr (expand_arg small_hdr (linux_env 0 False) ''239.1.1.1+4''
                                     (init_state small_hdr ()))))
           = [''239.1.1.1'', ''239.1.1.2'', ''239.1.1.3'', ''239.1.1.4''] \<and>
         map group (groups (projr (expand_arg small_hdr (linux_env 0 False) ''ff08::1+2''
                                     (init_state small_hdr ()))))
           = [''ff08::1'', ''ff08::2'']"
proof -
  have v4: "step_in_addr bo a4 = be_bytes4 ((be_val a4 + 1) mod 2 ^ 32)"
    using assms(1) by (rule step_in_addr_be)
  have v6: "step_in6_addr bo a6 = take 12 a6 @ be_bytes4 ((be_val (drop 12 a6) + 1) mod 2 ^ 32)"
    using assms(2) by (rule step_in6_addr_be)
  have l12: "length (take 12 a6) = 12" using assms(2) by simp
  have "length (step_in_addr bo a4) = 4" by (simp add: v4 length_be_bytes4)
  moreover have "be_val (step_in_addr bo a4) = (be_val a4 + 1) mod 2 ^ 32"
    by (simp add: v4 be_val_be_bytes4)
  moreover have "length (step_in6_addr bo a6) = 16" using assms(2) by (simp add: v6 length_be_bytes4)
  moreover have "take 12 (step_in6_addr bo a6) = take 12 a6" using l12 by (simp add: v6)
  moreover have "be_val (drop 12 (step_in6_addr bo a6)) = (be_val (drop 12 a6) + 1) mod 2 ^ 32"
    using l12 by (simp add: v6 be_val_be_bytes4)
  moreover have "map group (groups (projr (expand_arg small_hdr (linux_env 0 False) ''239.1.1.1+4''
                                     (init_state small_hdr ()))))
           = [''239.1.1.1'', ''239.1.1.2'', ''239.1.1.3'', ''239.1.1.4'']"
    by (simp add: run_239_1_1_1_plus_4 init_state_def)
  moreover have "map group (groups (projr (expand_arg small_hdr (linux_env 0 False) ''ff08::1+2''
                                     (init_state small_hdr ()))))
           = [''ff08::1'', ''ff08::2'']"
    by (simp add: run_ff08_1_plus_2 init_state_def)
  ultimately show ?thesis
    by (simp only: step_239_1_1_1 step_239_1_1_2 step_239_1_1_3 step_ff08_1 simp_thms)
qed

theorem address_step_increment_witness:
  "length [239, 1, 1, 1 :: byte] = 4 \<and>
   length [255, 8, 0, 0, 0, 0, 0, 0, 0, 0, 0, 0, 255, 255, 255, 255 :: byte] = 16 \<and>
   be_val (step_in_addr LittleEndian [239, 1, 1, 1]) = 4009820418 \<and>
   take 12 (step_in6_addr BigEndian [255, 8, 0, 0, 0, 0, 0, 0, 0, 0, 0, 0, 255, 255, 255, 255])
     = [255, 8, 0, 0, 0, 0, 0, 0, 0, 0, 0, 0] \<and>
   be_val (drop 12 (step_in6_addr BigEndian [255, 8, 0, 0, 0, 0, 0, 0, 0, 0, 0, 0, 255, 255, 255, 255])) = 0"
  using address_step_increment[of "[239, 1, 1, 1]" "[255, 8, 0, 0, 0, 0, 0, 0, 0, 0, 0, 0, 255, 255, 255, 255]" LittleEndian]
        address_step_increment[of "[239, 1, 1, 1]" "[255, 8, 0, 0, 0, 0, 0, 0, 0, 0, 0, 0, 255, 255, 255, 255]" BigEndian]
  by (simp add: be_val_def)


subsection \<open>Expansion of an IPv6 group with a long text\<close>


lemma pton_long:
  "libc_inet_pton True ''ff08:1111:2222:3333:4444:5555:6666:7777''
   = Some [255, 8, 17, 17, 34, 34, 51, 51, 68, 68, 85, 85, 102, 102, 119, 119]"
  by (simp add: libc_defs)

lemma step_long:
  "step_in6_addr bo [255, 8, 17, 17, 34, 34, 51, 51, 68, 68, 85, 85, 102, 102, 119, 119]
   = [255, 8, 17, 17, 34, 34, 51, 51, 68, 68, 85, 85, 102, 102, 119, 120]"
  by (simp add: step_in6_addr_be be_val_def be_bytes4_def)

lemma ntop_long_text:
  "ntop6_text [255, 8, 17, 17, 34, 34, 51, 51, 68, 68, 85, 85, 102, 102, 119, 120]
   = ''ff08:1111:2222:3333:4444:5555:6666:7778''"
  by (simp add: libc_defs)

lemma ntop_long_28:
  "libc_inet_ntop True [255, 8, 17, 17, 34, 34, 51, 51, 68, 68, 85, 85, 102, 102, 119, 120] 28 = None"
  by (simp add: libc_inet_ntop_def ntop_long_text)

lemma ntop_long_46:
  "libc_inet_ntop True [255, 8, 17, 17, 34, 34, 51, 51, 68, 68, 85, 85, 102, 102, 119, 120] 46
   = Some ''ff08:1111:2222:3333:4444:5555:6666:7778''"
  by (simp add: libc_inet_ntop_def ntop_long_text)

text \<open>
  Claim C2 (the code departs from it). The expansion of a specification with a repeat
  count registers that many entries, but the entries after the first are not always at
  the stepped address: \<^verbatim>\<open>inet_ntop\<close> is given the size of the socket address structure
  (\<^verbatim>\<open>len = sizeof(*sin6)\<close>, 28 bytes) as the size of the text buffer, so for an IPv6
  address whose text has 28 characters or more the conversion fails, the buffer keeps
  the previous text, and the next entry repeats it. With the size of the buffer itself
  the stepped text would have been written.
\<close>

theorem ipv6_long_text_repeats_group:
  "expand_arg small_hdr (linux_env 0 False) ''ff08:1111:2222:3333:4444:5555:6666:7777+2''
     (init_state small_hdr ())
   = Inr ((init_state small_hdr ())\<lparr>groups :=
       map (\<lambda>t. (zero_gr small_hdr)\<lparr>source := None, group := t\<rparr>)
           [''ff08:1111:2222:3333:4444:5555:6666:7777'',
            ''ff08:1111:2222:3333:4444:5555:6666:7777'']\<rparr>) \<and>
   inet_pton (linux_env 0 False) True ''ff08:1111:2222:3333:4444:5555:6666:7777''
   = Some [255, 8, 17, 17, 34, 34, 51, 51, 68, 68, 85, 85, 102, 102, 119, 119] \<and>
   step_in6_addr (host_order (linux_env 0 False))
     [255, 8, 17, 17, 34, 34, 51, 51, 68, 68, 85, 85, 102, 102, 119, 119]
   = [255, 8, 17, 17, 34, 34, 51, 51, 68, 68, 85, 85, 102, 102, 119, 120] \<and>
   inet_ntop (linux_env 0 False) True
     [255, 8, 17, 17, 34, 34, 51, 51, 68, 68, 85, 85, 102, 102, 119, 120]
     (sizeof_sockaddr_in6 (linux_env 0 False)) = None \<and>
   inet_ntop (linux_env 0 False) True
     [255, 8, 17, 17, 34, 34, 51, 51, 68, 68, 85, 85, 102, 102, 119, 120]
     (INET_ADDRSTR_LEN small_hdr + 1) = Some ''ff08:1111:2222:3333:4444:5555:6666:7778''"
proof -
  have "expand_arg small_hdr (linux_env 0 False) ''ff08:1111:2222:3333:4444:5555:6666:7777+2''
     (init_state small_hdr ())
   = Inr ((init_state small_hdr ())\<lparr>groups :=
       map (\<lambda>t. (zero_gr small_hdr)\<lparr>source := None, group := t\<rparr>)
           [''ff08:1111:2222:3333:4444:5555:6666:7777'',
            ''ff08:1111:2222:3333:4444:5555:6666:7777'']\<rparr>)"
    by (simp add: run_defs atoi_2 pton_long step_long ntop_long_28 init_state_def)
  moreover have "libc_inet_ntop True [255, 8, 17, 17, 34, 34, 51, 51, 68, 68, 85, 85, 102, 102, 119, 120] 47
   = Some ''ff08:1111:2222:3333:4444:5555:6666:7778''"
    by (simp add: libc_inet_ntop_def ntop_long_text)
  ultimately show ?thesis
    by (simp add: linux_env_def small_hdr_def pton_long step_long ntop_long_28)
qed

subsection \<open>Capacity\<close>













subsection \<open>Loops over the group table, and the timer handler\<close>

lemma foldl_frame:
  assumes "\<And>s i. fld (F s i) = fld s"
  shows "fld (foldl F s xs) = fld s"
  by (induction xs arbitrary: s) (simp_all add: assms)

lemma foldl_index_map:
  fixes F :: "'w state \<Rightarrow> nat \<Rightarrow> 'w state"
  assumes step: "\<And>s i. P s \<Longrightarrow> P (F s i) \<and> groups (F s i) = (groups s)[i := f (groups s ! i)]"
      and "P s" and "n \<le> group_num s"
  shows "P (foldl F s [0..<n]) \<and>
         groups (foldl F s [0..<n]) = map f (take n (groups s)) @ drop n (groups s)"
  using assms(3)
proof (induction n)
  case 0
  show ?case using assms(2) by simp
next
  case (Suc n)
  let ?t = "foldl F s [0..<n]"
  have P: "P ?t" and g: "groups ?t = map f (take n (groups s)) @ drop n (groups s)"
    using Suc by simp_all
  have n: "n < length (groups s)" using Suc.prems by simp
  have e: "groups ?t ! n = groups s ! n"
    using n by (simp add: g nth_append)
  have "groups (foldl F s [0..<Suc n]) = (groups ?t)[n := f (groups s ! n)]"
    using step[OF P, of n] by (simp add: e)
  also have "\<dots> = map f (take n (groups s)) @ (drop n (groups s))[0 := f (groups s ! n)]"
    using n by (simp add: g list_update_append)
  also have "(drop n (groups s))[0 := f (groups s ! n)] = f (groups s ! n) # drop (Suc n) (groups s)"
    using n by (simp add: Cons_nth_drop_Suc[symmetric])
  also have "map f (take n (groups s)) @ f (groups s ! n) # drop (Suc n) (groups s)
             = map f (take (Suc n) (groups s)) @ drop (Suc n) (groups s)"
    using n by (simp add: take_Suc_conv_app_nth)
  finally show ?case using step[OF P, of n] by simp
qed

lemma update_groups: "groups (update H s) = map (advance H) (groups s)"
  using foldl_index_map[where P = "\<lambda>_. True" and f = "advance H" and s = s and n = "group_num s"
      and F = "\<lambda>s i. s\<lparr>groups := (groups s)[i := advance H (groups s ! i)]\<rparr>"]
  by (simp add: update_def)

lemma update_out: "out (update H s) = out s"
  unfolding update_def by (rule foldl_frame) simp


lemma plot_row_groups:
  "groups (plot_row H spos s i) = (groups s)[i := snd (spin_gr H (groups s ! i))]"
  by (simp add: plot_row_def Let_def split: prod.split)

lemma plot_rows_groups:
  assumes "groups s' = groups s"
  shows "groups (foldl (plot_row H spos) s' [0..<group_num s])
         = map (\<lambda>g. snd (spin_gr H g)) (groups s)"
  using foldl_index_map[where P = "\<lambda>_. True" and f = "\<lambda>g. snd (spin_gr H g)" and s = s'
      and n = "group_num s" and F = "plot_row H spos"] assms
  by (simp add: plot_row_groups)

lemma plotter_show_groups:
  "groups (plotter_show H signo s)
   = (if old s \<noteq> 0 then map (advance H) (groups s)
      else map (\<lambda>g. advance H (snd (spin_gr H g))) (groups s))"
  by (simp add: plotter_show_def Let_def update_groups plot_rows_groups)

lemma spin_gr_status: "status (snd (spin_gr H g)) = status g"
  by (simp add: spin_gr_def Let_def)

lemma spin_gr_group: "group (snd (spin_gr H g)) = group g"
  by (simp add: spin_gr_def Let_def)

lemma advance_after_spin: "status (advance H (snd (spin_gr H g))) = status (advance H g)"
  by (simp add: advance_def spin_gr_status)

lemma length_status_advance:
  "length (status g) = STATUS_HISTORY H \<Longrightarrow> length (status (advance H g)) = STATUS_HISTORY H"
  by (cases "STATUS_HISTORY H") (auto simp: advance_def memmove_down_def)

text \<open>
  Claim C9. One call of the timer handler \<^verbatim>\<open>plotter_show\<close> applies the shift of \<^verbatim>\<open>update\<close>
  exactly once to the status history of every registered entry, whatever the output mode
  (\<open>old\<close>) and whatever the sender or receiver mode (\<open>join\<close>), and every history keeps
  its length \<^verbatim>\<open>STATUS_HISTORY\<close>.
\<close>

theorem plotter_show_advances_once:
  assumes "\<forall>g \<in> set (groups s). length (status g) = STATUS_HISTORY H"
  shows "map status (groups (plotter_show H signo (s\<lparr>old := o', join := j'\<rparr>)))
           = map (\<lambda>g. status (advance H g)) (groups s) \<and>
         (\<forall>g \<in> set (groups (plotter_show H signo (s\<lparr>old := o', join := j'\<rparr>))).
             length (status g) = STATUS_HISTORY H) \<and>
         group_num (plotter_show H signo (s\<lparr>old := o', join := j'\<rparr>)) = group_num s \<and>
         groups (update H s) = map (advance H) (groups s)"
proof -
  let ?s = "s\<lparr>old := o', join := j'\<rparr>"
  have a: "map status (groups (plotter_show H signo ?s)) = map (\<lambda>g. status (advance H g)) (groups s)"
    by (simp add: plotter_show_groups advance_after_spin comp_def)
  have "\<forall>st \<in> set (map status (groups (plotter_show H signo ?s))). length st = STATUS_HISTORY H"
    unfolding a using assms by (auto simp: length_status_advance)
  then have b: "\<forall>g \<in> set (groups (plotter_show H signo ?s)). length (status g) = STATUS_HISTORY H"
    by auto
  have c: "group_num (plotter_show H signo ?s) = group_num s"
    by (simp add: plotter_show_groups)
  from a b c show ?thesis by (simp add: update_groups)
qed


lemma small_consts:
  "STATUS_HISTORY small_hdr = 6" "STATUS_POS small_hdr = 4" "MAX_NUM_GROUPS small_hdr = 8"
  by (simp_all add: small_hdr_def)

theorem plotter_show_advances_once_witness:
  "length (''    .'' @ [CHR 0x00]) = STATUS_HISTORY small_hdr \<and>
   map status (groups (plotter_show small_hdr 14
      ((init_state small_hdr ())
         \<lparr>groups := [(zero_gr small_hdr)\<lparr>group := ''239.1.1.1'', status := ''    .'' @ [CHR 0x00]\<rparr>]\<rparr>
         \<lparr>old := 1, join := 0\<rparr>)))
     = [''   . '' @ [CHR 0x00]] \<and>
   map status (groups (plotter_show small_hdr 14
      ((init_state small_hdr ())
         \<lparr>groups := [(zero_gr small_hdr)\<lparr>group := ''239.1.1.1'', status := ''    .'' @ [CHR 0x00]\<rparr>]\<rparr>
         \<lparr>old := 0, join := 1\<rparr>)))
     = [''   . '' @ [CHR 0x00]]"
  using plotter_show_advances_once[of
      "(init_state small_hdr ())\<lparr>groups := [(zero_gr small_hdr)\<lparr>group := ''239.1.1.1'', status := ''    .'' @ [CHR 0x00]\<rparr>]\<rparr>"
      small_hdr 14 1 0]
    plotter_show_advances_once[of
      "(init_state small_hdr ())\<lparr>groups := [(zero_gr small_hdr)\<lparr>group := ''239.1.1.1'', status := ''    .'' @ [CHR 0x00]\<rparr>]\<rparr>"
      small_hdr 14 0 1]
  by (simp add: small_consts advance_def memmove_down_def)

subsection \<open>The status history\<close>

lemma advance_blank:
  assumes "2 \<le> STATUS_HISTORY H" and "STATUS_POS H = STATUS_HISTORY H - 2"
      and "status g = blank_history H"
  shows "status (advance H g) = blank_history H"
proof -
  obtain m where m: "STATUS_HISTORY H = Suc (Suc m)"
    using assms(1) by (metis Suc_le_D numeral_2_eq_2 Suc_le_mono le_imp_less_Suc less_imp_Suc_add add_Suc)
  have "(replicate m CHR '' '' @ [CHR 0x00, CHR 0x00])[m := CHR '' '']
        = replicate m CHR '' '' @ [CHR '' '', CHR 0x00]"
    by (simp add: list_update_append)
  also have "\<dots> = replicate (Suc m) CHR '' '' @ [CHR 0x00]"
    by (simp add: replicate_append_same)
  finally show ?thesis
    using assms(2,3) by (simp add: advance_def memmove_down_def blank_history_def m)
qed

lemma advance_pow_blank:
  assumes "2 \<le> STATUS_HISTORY H" and "STATUS_POS H = STATUS_HISTORY H - 2"
      and "status g = blank_history H"
  shows "status ((advance H ^^ n) g) = blank_history H"
  by (induction n) (simp_all add: assms advance_blank)

lemma advance_after_mark:
  assumes "2 \<le> STATUS_HISTORY H" and "STATUS_POS H = STATUS_HISTORY H - 2"
      and "length (status g) = STATUS_HISTORY H"
  shows "status (advance H (mark H g c)) ! STATUS_POS H = CHR '' ''"
    and "3 \<le> STATUS_HISTORY H \<Longrightarrow> status (advance H (mark H g c)) ! (STATUS_POS H - 1) = c"
    and "3 \<le> STATUS_HISTORY H \<Longrightarrow> c \<in> set (status (advance H (mark H g c)))"
proof -
  obtain m where m: "STATUS_HISTORY H = Suc (Suc m)"
    using assms(1) by (metis Suc_le_D numeral_2_eq_2 Suc_le_mono le_imp_less_Suc less_imp_Suc_add add_Suc)
  show "status (advance H (mark H g c)) ! STATUS_POS H = CHR '' ''"
    using assms(2,3) by (simp add: advance_def mark_def memmove_down_def m)
  show at: "status (advance H (mark H g c)) ! (STATUS_POS H - 1) = c" if h3: "3 \<le> STATUS_HISTORY H"
  proof -
    obtain k where k: "m = Suc k" using h3 m by (cases m) auto
    show ?thesis
      using assms(2,3) by (simp add: advance_def mark_def memmove_down_def m k nth_append)
  qed
  show "c \<in> set (status (advance H (mark H g c)))" if h3: "3 \<le> STATUS_HISTORY H"
  proof -
    have "length (status (mark H g c)) = STATUS_HISTORY H"
      using assms(3) by (simp add: mark_def)
    then have "length (status (advance H (mark H g c))) = STATUS_HISTORY H"
      by (rule length_status_advance)
    then have "STATUS_POS H - 1 < length (status (advance H (mark H g c)))"
      using assms(2) h3 by simp
    then have "status (advance H (mark H g c)) ! (STATUS_POS H - 1)
               \<in> set (status (advance H (mark H g c)))"
      by (rule nth_mem)
    then show ?thesis using at[OF h3] by simp
  qed
qed

text \<open>
  Claim C4, as amended. With \<^verbatim>\<open>STATUS_POS\<close> the last slot before the terminating NUL:
  an all-blank history stays all-blank under any number of advances; and after a symbol
  is written into the most-recent slot and one advance is made, the newest slot is blank
  and, in a history of at least two slots, the symbol stands in the slot just before
  the newest one, so it is still present in the history (the claim says it is no longer
  present).
\<close>

theorem history_shift:
  assumes "2 \<le> STATUS_HISTORY H" and "STATUS_POS H = STATUS_HISTORY H - 2"
  shows "(status g = blank_history H \<longrightarrow> status ((advance H ^^ n) g) = blank_history H) \<and>
         (length (status g) = STATUS_HISTORY H \<longrightarrow>
            status (advance H (mark H g c)) ! STATUS_POS H = CHR '' '' \<and>
            (3 \<le> STATUS_HISTORY H \<longrightarrow>
               status (advance H (mark H g c)) ! (STATUS_POS H - 1) = c \<and>
               c \<in> set (status (advance H (mark H g c)))))"
  using advance_pow_blank[OF assms] advance_after_mark[OF assms] by blast

text \<open>
  The claim as stated fails. After the mark and one advance the symbol is still in the
  history, next to the newest slot; and it is still in the tail that the display shows:
  on a terminal of 80 columns the row that the next call of \<^verbatim>\<open>plotter_show\<close> prints for
  the entry has the symbol in its text.
\<close>

theorem history_symbol_still_present:
  "status (advance small_hdr
       (mark small_hdr ((zero_gr small_hdr)\<lparr>group := ''239.1.1.1'', status := blank_history small_hdr\<rparr>)
          CHR ''.''))
   = ''   . '' @ [CHR 0x00] \<and>
   CHR ''.'' \<in> set (status (advance small_hdr
       (mark small_hdr ((zero_gr small_hdr)\<lparr>group := ''239.1.1.1'', status := blank_history small_hdr\<rparr>)
          CHR ''.''))) \<and>
   width (init_state small_hdr ()) = 80 \<and>
   out (plotter_show small_hdr 14
          ((init_state small_hdr ())\<lparr>groups :=
             [advance small_hdr
                (mark small_hdr
                   ((zero_gr small_hdr)\<lparr>group := ''239.1.1.1'', status := blank_history small_hdr\<rparr>)
                   CHR ''.'')]\<rparr>))
   = [HOSTDATE, ROW ''*,239.1.1.1'' CHR ''|'' (Some ''   . '') 0]"
proof -
  let ?g = "advance small_hdr
       (mark small_hdr ((zero_gr small_hdr)\<lparr>group := ''239.1.1.1'', status := blank_history small_hdr\<rparr>)
          CHR ''.'')"
  have g: "?g = (zero_gr small_hdr)\<lparr>group := ''239.1.1.1'', status := ''   . '' @ [CHR 0x00]\<rparr>"
    by (simp add: advance_def mark_def memmove_down_def blank_history_def small_consts
        replicate_numeral zero_gr_def)
  have o: "out (plotter_show small_hdr 14 ((init_state small_hdr ())\<lparr>groups := [?g]\<rparr>))
           = [HOSTDATE, ROW ''*,239.1.1.1'' CHR ''|'' (Some ''   . '') 0]"
    unfolding g
    by (simp add: plotter_show_def Let_def update_out plot_row_def spin_gr_def init_state_def
        small_consts zero_gr_def)
  show ?thesis
    using o unfolding g by (simp add: init_state_def)
qed

theorem history_shift_witness:
  "2 \<le> STATUS_HISTORY small_hdr \<and> STATUS_POS small_hdr = STATUS_HISTORY small_hdr - 2 \<and>
   status ((zero_gr small_hdr)\<lparr>status := blank_history small_hdr\<rparr>) = blank_history small_hdr \<and>
   length (status ((zero_gr small_hdr)\<lparr>status := blank_history small_hdr\<rparr>)) = STATUS_HISTORY small_hdr \<and>
   3 \<le> STATUS_HISTORY small_hdr \<and>
   status ((advance small_hdr ^^ 3) ((zero_gr small_hdr)\<lparr>status := blank_history small_hdr\<rparr>))
     = ''     '' @ [CHR 0x00] \<and>
   status (advance small_hdr
       (mark small_hdr ((zero_gr small_hdr)\<lparr>status := blank_history small_hdr\<rparr>) CHR ''.'')) ! 4 = CHR '' '' \<and>
   status (advance small_hdr
       (mark small_hdr ((zero_gr small_hdr)\<lparr>status := blank_history small_hdr\<rparr>) CHR ''.'')) ! 3 = CHR ''.'' \<and>
   CHR ''.'' \<in> set (status (advance small_hdr
       (mark small_hdr ((zero_gr small_hdr)\<lparr>status := blank_history small_hdr\<rparr>) CHR ''.'')))"
  using history_shift[of small_hdr "(zero_gr small_hdr)\<lparr>status := blank_history small_hdr\<rparr>" 3 "CHR ''.''"]
  by (simp add: small_consts blank_history_def replicate_numeral)

subsection \<open>The spinner\<close>

text \<open>
  The claim as stated fails: with a marker other than the dot in the most-recent slot,
  which is not blank, \<^verbatim>\<open>spin\<close> leaves the cursor where it was.
\<close>

theorem spin_ignores_other_marker:
  "status ((zero_gr small_hdr)\<lparr>status := ''    *'' @ [CHR 0x00], spin := 7\<rparr>) ! STATUS_POS small_hdr
     = CHR ''*'' \<and>
   CHR ''*'' \<noteq> CHR '' '' \<and>
   spin_gr small_hdr ((zero_gr small_hdr)\<lparr>status := ''    *'' @ [CHR 0x00], spin := 7\<rparr>)
     = (CHR 0x5C, (zero_gr small_hdr)\<lparr>status := ''    *'' @ [CHR 0x00], spin := 7\<rparr>)"
  by (simp add: spin_gr_def small_consts)

text \<open>
  Claim C5, as amended. \<^verbatim>\<open>spin\<close> returns the glyph of the 4-glyph cycle at the cursor
  modulo 4, and adds one to the cursor if and only if the most-recent slot holds the
  activity marker \<^verbatim>\<open>.\<close> before the shift; with anything else in that slot, blank or
  not, the entry is unchanged.
\<close>

theorem spin_advances_on_dot:
  "fst (spin_gr H g) = [CHR ''|'', CHR ''/'', CHR ''-'', CHR 0x5C] ! (unat (spin g) mod 4) \<and>
   snd (spin_gr H g) = (if status g ! STATUS_POS H = CHR ''.'' then g\<lparr>spin := spin g + 1\<rparr> else g) \<and>
   (spin (snd (spin_gr H g)) = spin g + 1) = (status g ! STATUS_POS H = CHR ''.'') \<and>
   (spin (snd (spin_gr H g)) = spin g) = (status g ! STATUS_POS H \<noteq> CHR ''.'')"
  by (simp add: spin_gr_def Let_def)

theorem spin_advances_on_dot_witness:
  "spin_gr small_hdr ((zero_gr small_hdr)\<lparr>status := ''    .'' @ [CHR 0x00], spin := 7\<rparr>)
     = (CHR 0x5C, (zero_gr small_hdr)\<lparr>status := ''    .'' @ [CHR 0x00], spin := 8\<rparr>) \<and>
   spin_gr small_hdr ((zero_gr small_hdr)\<lparr>status := ''     '' @ [CHR 0x00], spin := 6\<rparr>)
     = (CHR ''-'', (zero_gr small_hdr)\<lparr>status := ''     '' @ [CHR 0x00], spin := 6\<rparr>)"
  using spin_advances_on_dot[of small_hdr "(zero_gr small_hdr)\<lparr>status := ''    .'' @ [CHR 0x00], spin := 7\<rparr>"]
        spin_advances_on_dot[of small_hdr "(zero_gr small_hdr)\<lparr>status := ''     '' @ [CHR 0x00], spin := 6\<rparr>"]
  by (simp add: small_consts prod_eq_iff)


subsection \<open>Resolution and the family counters\<close>

lemma resolve_step_group: "map group (groups (resolve_step H E s i)) = map group (groups s)"
proof (cases "i < group_num s")
  case True
  then have "(map group (groups s))[i := group (groups s ! i)] = map group (groups s)"
    by (simp add: list_update_same_conv)
  then show ?thesis
    by (simp add: resolve_step_def Let_def map_update)
next
  case False
  then show ?thesis by (simp add: resolve_step_def Let_def list_update_beyond not_less)
qed

lemma resolve_step_need4:
  "need4 (resolve_step H E s i) = need4 s + (if CHR '':'' \<in> set (group (groups s ! i)) then 0 else 1)"
  by (simp add: resolve_step_def Let_def)

lemma resolve_step_need6:
  "need6 (resolve_step H E s i) = need6 s + (if CHR '':'' \<in> set (group (groups s ! i)) then 1 else 0)"
  by (simp add: resolve_step_def Let_def)

lemma resolve_upto:
  assumes "n \<le> group_num s"
  shows "map group (groups (foldl (resolve_step H E) s [0..<n])) = map group (groups s) \<and>
         need4 (foldl (resolve_step H E) s [0..<n])
           = need4 s + int (length (filter (\<lambda>t. CHR '':'' \<notin> set t) (take n (map group (groups s))))) \<and>
         need6 (foldl (resolve_step H E) s [0..<n])
           = need6 s + int (length (filter (\<lambda>t. CHR '':'' \<in> set t) (take n (map group (groups s)))))"
  using assms
proof (induction n)
  case 0
  show ?case by simp
next
  case (Suc n)
  let ?t = "foldl (resolve_step H E) s [0..<n]"
  have ih: "map group (groups ?t) = map group (groups s)"
    "need4 ?t = need4 s + int (length (filter (\<lambda>t. CHR '':'' \<notin> set t) (take n (map group (groups s)))))"
    "need6 ?t = need6 s + int (length (filter (\<lambda>t. CHR '':'' \<in> set t) (take n (map group (groups s)))))"
    using Suc by simp_all
  have n: "n < length (map group (groups s))" using Suc.prems by simp
  have "group (groups ?t ! n) = map group (groups ?t) ! n"
    using n ih(1) by (metis length_map nth_map)
  then have g: "group (groups ?t ! n) = map group (groups s) ! n" by (simp add: ih(1))
  have t: "take (Suc n) (map group (groups s)) = take n (map group (groups s)) @ [map group (groups s) ! n]"
    using n by (rule take_Suc_conv_app_nth)
  show ?case
    by (simp only: upt_Suc_append[OF le0] foldl_append foldl.simps resolve_step_group
          resolve_step_need4 resolve_step_need6 ih g t) simp
qed

lemma resolve_counts:
  "map group (groups (resolve H E s)) = map group (groups s) \<and>
   need4 (resolve H E s) = need4 s + int (length (filter (\<lambda>t. CHR '':'' \<notin> set t) (map group (groups s)))) \<and>
   need6 (resolve H E s) = need6 s + int (length (filter (\<lambda>t. CHR '':'' \<in> set t) (map group (groups s))))"
  using resolve_upto[of "group_num s" s H E] by (simp add: resolve_def)

subsection \<open>What the start of \<^verbatim>\<open>main\<close> and the expansion leave alone\<close>

lemma option_switch_need:
  assumes "option_switch H E c a s = Inr s'"
  shows "need4 s' = need4 s \<and> need6 s' = need6 s \<and> groups s' = groups s"
  using assms
  by (auto simp: option_switch_def Let_def split: if_splits)

lemma parse_options_need:
  "parse_options H E opts s = Inr s' \<Longrightarrow> need4 s' = need4 s \<and> need6 s' = need6 s \<and> groups s' = groups s"
proof (induction opts arbitrary: s)
  case Nil
  then show ?case by simp
next
  case (Cons o' opts)
  obtain c a where o': "o' = (c, a)" by (cases o')
  from Cons.prems obtain s1 where s1: "option_switch H E c a s = Inr s1"
    and r: "parse_options H E opts s1 = Inr s'"
    by (auto simp: o' split: sum.splits)
  show ?case using Cons.IH[OF r] option_switch_need[OF s1] by simp
qed

lemma startup_need:
  assumes "startup H E arg0 opts args s = Inr s'"
  shows "need4 s' = need4 s \<and> need6 s' = need6 s"
proof -
  from assms obtain s1 where p: "parse_options H E opts (s\<lparr>ident := progname arg0\<rparr>) = Inr s1"
    by (auto simp: startup_def split: sum.splits)
  have n1: "need4 s1 = need4 s \<and> need6 s1 = need6 s"
    using parse_options_need[OF p] by simp
  from assms p n1 show ?thesis
    by (auto simp: startup_def Let_def split: if_splits prod.splits)
qed

lemma expand_loop_need:
  "expand_loop H E n sr buf g s = Inr s' \<Longrightarrow> need4 s' = need4 s \<and> need6 s' = need6 s"
proof (induction n arbitrary: buf g s)
  case 0
  then show ?case by simp
next
  case (Suc n)
  show ?case
  proof (cases "group_num s < MAX_NUM_GROUPS H")
    case False
    with Suc.prems show ?thesis by simp
  next
    case True
    with Suc.prems obtain a where a: "inet_pton E (CHR '':'' \<in> set g) g = Some a"
      by (auto simp: Let_def split: option.splits)
    from Suc.prems True a obtain buf' s1 where
      r: "expand_loop H E n sr buf' buf' s1 = Inr s'" and s1: "need4 s1 = need4 s \<and> need6 s1 = need6 s"
      by (auto simp: Let_def)
    from Suc.IH[OF r] s1 show ?thesis by simp
  qed
qed

lemma expand_arg_need:
  assumes "expand_arg H E arg s = Inr s'"
  shows "need4 s' = need4 s \<and> need6 s' = need6 s"
proof -
  from assms have "\<exists>n sr buf g. expand_loop H E n sr buf g s = Inr s'"
    by (auto simp: expand_arg_def Let_def simp del: expand_loop.simps
             split: option.splits prod.splits if_splits)
  then show ?thesis using expand_loop_need by blast
qed

lemma expand_args_need:
  "expand_args H E args s = Inr s' \<Longrightarrow> need4 s' = need4 s \<and> need6 s' = need6 s"
proof (induction args arbitrary: s)
  case Nil
  then show ?case by simp
next
  case (Cons arg args)
  from Cons.prems obtain s1 where a: "expand_arg H E arg s = Inr s1"
    and r: "expand_args H E args s1 = Inr s'"
    by (auto split: sum.splits)
  show ?case using Cons.IH[OF r] expand_arg_need[OF a] by simp
qed


lemma expand_arg_plain:
  assumes "length arg \<le> INET_ADDRSTR_LEN H" and "CHR ''+'' \<notin> set arg" and "CHR '','' \<notin> set arg"
      and "Suc (group_num s) < MAX_NUM_GROUPS H"
      and "inet_pton E (CHR '':'' \<in> set arg) arg = Some a"
  shows "expand_arg H E arg s
         = Inr (s\<lparr>groups := groups s @ [(zero_gr H)\<lparr>source := None, group := arg\<rparr>]\<rparr>)"
  using assms by (simp add: expand_arg_def strlcpy_def cut_at_def Let_def)

text \<open>
  Claim C8. The resolution loop adds to \<^verbatim>\<open>need4\<close> the number of registered entries whose
  group text has no colon and to \<^verbatim>\<open>need6\<close> the number of those whose text has one, and
  leaves the texts as they are; both counters are 0 before it, so when \<^verbatim>\<open>main\<close> reaches
  the run loop they equal those two numbers. For the arguments \<^verbatim>\<open>239.1.1.1\<close> and
  \<^verbatim>\<open>ff08::1\<close> that is one of each.
\<close>

theorem resolve_counts_families:
  "map group (groups (resolve H E s)) = map group (groups s) \<and>
   need4 (resolve H E s)
     = need4 s + int (length (filter (\<lambda>t. CHR '':'' \<notin> set t) (map group (groups s)))) \<and>
   need6 (resolve H E s)
     = need6 s + int (length (filter (\<lambda>t. CHR '':'' \<in> set t) (map group (groups s)))) \<and>
   (\<forall>s'. before_loop H E arg0 opts args (init_state H w) = Inr s' \<longrightarrow>
      need4 s' = int (length (filter (\<lambda>t. CHR '':'' \<notin> set t) (map group (groups s')))) \<and>
      need6 s' = int (length (filter (\<lambda>t. CHR '':'' \<in> set t) (map group (groups s')))))"
proof -
  have "need4 s' = int (length (filter (\<lambda>t. CHR '':'' \<notin> set t) (map group (groups s')))) \<and>
        need6 s' = int (length (filter (\<lambda>t. CHR '':'' \<in> set t) (map group (groups s'))))"
    if b: "before_loop H E arg0 opts args (init_state H w) = Inr s'" for s'
  proof -
    from b obtain s4 s5 where st: "startup H E arg0 opts args (init_state H w) = Inr s4"
      and ex: "expand_args H E args s4 = Inr s5" and s': "s' = resolve H E s5"
      by (auto simp: before_loop_def split: sum.splits)
    have "need4 s5 = 0 \<and> need6 s5 = 0"
      using startup_need[OF st] expand_args_need[OF ex] by (simp add: init_state_def)
    then show ?thesis
      using resolve_counts[of H E s5] by (simp add: s')
  qed
  then show ?thesis using resolve_counts[of H E s] by blast
qed

theorem resolve_counts_families_witness:
  "\<exists>s'. before_loop small_hdr (linux_env 0 False) ''mcjoin'' [] [''239.1.1.1'', ''ff08::1'']
           (init_state small_hdr ()) = Inr s' \<and>
        map group (groups s') = [''239.1.1.1'', ''ff08::1''] \<and> need4 s' = 1 \<and> need6 s' = 1"
proof -
  let ?E = "linux_env 0 False :: unit env"
  let ?s0 = "(init_state small_hdr ())\<lparr>ident := ''mcjoin'', iface := ''eth0''\<rparr>"
  let ?s1 = "?s0\<lparr>groups := groups ?s0 @ [(zero_gr small_hdr)\<lparr>source := None, group := ''239.1.1.1''\<rparr>]\<rparr>"
  let ?s2 = "?s1\<lparr>groups := groups ?s1 @ [(zero_gr small_hdr)\<lparr>source := None, group := ''ff08::1''\<rparr>]\<rparr>"
  have p4: "inet_pton ?E (CHR '':'' \<in> set ''239.1.1.1'') ''239.1.1.1'' = Some [239, 1, 1, 1]"
    by (simp add: linux_env_def pton_239_1_1_1)
  have p6: "inet_pton ?E (CHR '':'' \<in> set ''ff08::1'') ''ff08::1''
            = Some [255, 8, 0, 0, 0, 0, 0, 0, 0, 0, 0, 0, 0, 0, 0, 1]"
    by (simp add: linux_env_def pton_ff08_1)
  have e1: "expand_arg small_hdr ?E ''239.1.1.1'' ?s0 = Inr ?s1"
    by (rule expand_arg_plain[OF _ _ _ _ p4]) (simp_all add: small_hdr_def init_state_def)
  have e2: "expand_arg small_hdr ?E ''ff08::1'' ?s1 = Inr ?s2"
    by (rule expand_arg_plain[OF _ _ _ _ p6]) (simp_all add: small_hdr_def init_state_def)
  have st: "startup small_hdr ?E ''mcjoin'' [] [''239.1.1.1'', ''ff08::1''] (init_state small_hdr ())
            = Inr ?s0"
    by (simp add: startup_plain)
  have ex: "expand_args small_hdr ?E [''239.1.1.1'', ''ff08::1''] ?s0 = Inr ?s2"
    by (simp only: expand_args.simps e1 e2 sum.case)
  have b: "before_loop small_hdr ?E ''mcjoin'' [] [''239.1.1.1'', ''ff08::1''] (init_state small_hdr ())
           = Inr (resolve small_hdr ?E ?s2)"
    by (simp only: before_loop_def st ex sum.case)
  have g: "map group (groups (resolve small_hdr ?E ?s2)) = [''239.1.1.1'', ''ff08::1'']"
    using resolve_counts_families[of small_hdr ?E ?s2] by (simp add: init_state_def)
  note main_part = resolve_counts_families[of small_hdr ?E ?s2 "''mcjoin''" "[]"
      "[''239.1.1.1'', ''ff08::1'']" "()", THEN conjunct2, THEN conjunct2, THEN conjunct2,
      rule_format, OF b]
  have n: "need4 (resolve small_hdr ?E ?s2) = 1 \<and> need6 (resolve small_hdr ?E ?s2) = 1"
    using main_part unfolding g by simp
  show ?thesis
    by (rule exI[of _ "resolve small_hdr ?E ?s2"]) (simp only: b g n simp_thms)
qed


subsection \<open>The port option\<close>

lemma option_switch_port:
  assumes "c \<noteq> CHR ''p''" and "option_switch H E c a s = Inr s'"
  shows "port s' = port s \<and> out s' = out s"
  using assms
  by (auto simp: option_switch_def Let_def split: if_splits)

lemma parse_options_port:
  "CHR ''p'' \<notin> fst ` set opts \<Longrightarrow> parse_options H E opts s = Inr s'
   \<Longrightarrow> port s' = port s \<and> out s' = out s"
proof (induction opts arbitrary: s)
  case Nil
  then show ?case by simp
next
  case (Cons o' opts)
  obtain c a where o': "o' = (c, a)" by (cases o')
  from Cons.prems obtain s1 where s1: "option_switch H E c a s = Inr s1"
    and r: "parse_options H E opts s1 = Inr s'"
    by (auto simp: o' split: sum.splits)
  from Cons.prems have c: "c \<noteq> CHR ''p''" and n: "CHR ''p'' \<notin> fst ` set opts"
    by (auto simp: o')
  show ?case using Cons.IH[OF n r] option_switch_port[OF c s1] by simp
qed

lemma parse_options_append:
  "parse_options H E (pre @ post) s
   = (case parse_options H E pre s of Inl r \<Rightarrow> Inl r | Inr s1 \<Rightarrow> parse_options H E post s1)"
  by (induction pre arbitrary: s) (auto split: sum.splits)

lemma startup_port:
  assumes "startup H E arg0 opts args s = Inr s'"
  shows "\<exists>s1. parse_options H E opts (s\<lparr>ident := progname arg0\<rparr>) = Inr s1 \<and>
              port s' = port s1 \<and> out s' = out s1"
proof -
  from assms obtain s1 where p: "parse_options H E opts (s\<lparr>ident := progname arg0\<rparr>) = Inr s1"
    by (auto simp: startup_def split: sum.splits)
  from assms p have "port s' = port s1 \<and> out s' = out s1"
    by (auto simp: startup_def Let_def split: if_splits prod.splits)
  with p show ?thesis by blast
qed

lemma expand_loop_port:
  "expand_loop H E n sr buf g s = Inr s' \<Longrightarrow> port s' = port s \<and> out s' = out s"
proof (induction n arbitrary: buf g s)
  case 0
  then show ?case by simp
next
  case (Suc n)
  show ?case
  proof (cases "group_num s < MAX_NUM_GROUPS H")
    case False
    with Suc.prems show ?thesis by simp
  next
    case True
    with Suc.prems obtain a where a: "inet_pton E (CHR '':'' \<in> set g) g = Some a"
      by (auto simp: Let_def split: option.splits)
    from Suc.prems True a obtain buf' s1 where
      r: "expand_loop H E n sr buf' buf' s1 = Inr s'" and s1: "port s1 = port s \<and> out s1 = out s"
      by (auto simp: Let_def)
    from Suc.IH[OF r] s1 show ?thesis by simp
  qed
qed

lemma expand_arg_port:
  assumes "expand_arg H E arg s = Inr s'"
  shows "port s' = port s \<and> out s' = out s"
proof -
  from assms have "\<exists>n sr buf g. expand_loop H E n sr buf g s = Inr s'"
    by (auto simp: expand_arg_def Let_def simp del: expand_loop.simps
             split: option.splits prod.splits if_splits)
  then show ?thesis using expand_loop_port by blast
qed

lemma expand_args_port:
  "expand_args H E args s = Inr s' \<Longrightarrow> port s' = port s \<and> out s' = out s"
proof (induction args arbitrary: s)
  case Nil
  then show ?case by simp
next
  case (Cons arg args)
  from Cons.prems obtain s1 where a: "expand_arg H E arg s = Inr s1"
    and r: "expand_args H E args s1 = Inr s'"
    by (auto split: sum.splits)
  show ?case using Cons.IH[OF r] expand_arg_port[OF a] by simp
qed

lemma resolve_step_port:
  "port (resolve_step H E s i) = port s \<and> out (resolve_step H E s i) = out s \<and>
   group_num (resolve_step H E s i) = group_num s"
  by (simp add: resolve_step_def Let_def)

lemma resolve_step_sa_port:
  "j < group_num s \<Longrightarrow>
   sa_port (grp (groups (resolve_step H E s i) ! j))
   = (if j = i then word_of_int (port s) else sa_port (grp (groups s ! j)))"
  by (simp add: resolve_step_def Let_def nth_list_update)

lemma resolve_upto_port:
  assumes "n \<le> group_num s"
  shows "port (foldl (resolve_step H E) s [0..<n]) = port s \<and>
         out (foldl (resolve_step H E) s [0..<n]) = out s \<and>
         group_num (foldl (resolve_step H E) s [0..<n]) = group_num s \<and>
         (\<forall>j<n. sa_port (grp (groups (foldl (resolve_step H E) s [0..<n]) ! j)) = word_of_int (port s))"
  using assms
proof (induction n)
  case 0
  show ?case by simp
next
  case (Suc n)
  let ?t = "foldl (resolve_step H E) s [0..<n]"
  have ih: "port ?t = port s" "out ?t = out s" "group_num ?t = group_num s"
    "\<forall>j<n. sa_port (grp (groups ?t ! j)) = word_of_int (port s)"
    using Suc by simp_all
  have f: "foldl (resolve_step H E) s [0..<Suc n] = resolve_step H E ?t n" by simp
  have "sa_port (grp (groups (resolve_step H E ?t n) ! j)) = word_of_int (port s)" if "j < Suc n" for j
  proof -
    from that Suc.prems have "j < group_num ?t" by (simp add: ih(3))
    then show ?thesis
      using resolve_step_sa_port[of j ?t H E n] ih(1,4) that by (auto simp: less_Suc_eq)
  qed
  then show ?case
    unfolding f using resolve_step_port[of H E ?t n] ih(1,2,3) by simp
qed

lemma resolve_port:
  "port (resolve H E s) = port s \<and> out (resolve H E s) = out s \<and>
   (\<forall>g \<in> set (groups (resolve H E s)). sa_port (grp g) = word_of_int (port s))"
  using resolve_upto_port[of "group_num s" s H E]
  by (auto simp: resolve_def in_set_conv_nth)

lemma resolve_frame:
  "join (resolve H E s) = join s \<and> running (resolve H E s) = running s \<and>
   winchg (resolve H E s) = winchg s"
proof -
  have "join (foldl (resolve_step H E) s xs) = join s" for xs
    by (rule foldl_frame) (simp add: resolve_step_def Let_def)
  moreover have "running (foldl (resolve_step H E) s xs) = running s" for xs
    by (rule foldl_frame) (simp add: resolve_step_def Let_def)
  moreover have "winchg (foldl (resolve_step H E) s xs) = winchg s" for xs
    by (rule foldl_frame) (simp add: resolve_step_def Let_def)
  ultimately show ?thesis by (simp add: resolve_def)
qed

lemma atoi_80: "atoi ''80'' = 80" by (simp add: atoi_defs)

lemma redraw_0_frame:
  "join (redraw H E 0 s) = join s \<and> running (redraw H E 0 s) = running s \<and>
   port (redraw H E 0 s) = port s"
  by (simp add: redraw_def Let_def)

lemma show_stats_port: "port (show_stats s) = port s"
proof -
  have "port (foldl (\<lambda>s i. s\<lparr>out := out s @ [STATS_GROUP (group (groups s ! i))
                                  (count (groups s ! i)) (gaps (groups s ! i))]\<rparr>) s xs) = port s" for xs
    by (rule foldl_frame) simp
  then show ?thesis by (simp add: show_stats_def Let_def)
qed

lemma loop_exit_port: "port (loop_exit rc s) = port s"
  by (simp add: loop_exit_def Let_def show_stats_port)

lemma loop_one_signal:
  assumes "join s \<noteq> 0" and "running s \<noteq> 0" and "winchg s = 0"
  shows "loop H (linux_env 0 True) 1 s
         = Some (0, loop_exit 0 (exit_loop (redraw H (linux_env 0 True) 0 s)))"
proof -
  let ?E = "linux_env 0 True"
  have i: "loop_init ?E s = (0, s)" by (simp add: loop_init_def linux_env_def)
  have b: "loop_body H ?E s = (0, exit_loop (redraw H ?E 0 s))"
    using assms redraw_0_frame[of H ?E s]
    by (simp add: loop_body_def Let_def) (simp add: linux_env_def)
  have r: "running (exit_loop t) = 0" for t :: "unit state" by (simp add: exit_loop_def)
  show ?thesis
    using assms(2) by (simp add: loop_def i b r)
qed

text \<open>
  Claim C10. When the \<^verbatim>\<open>-p\<close> option names a port below 1024 and the effective user is
  not root, the option's case stores the port, prints
  \<^verbatim>\<open>Must be root to use privileged ports (< 1024)\<close> and leaves by \<^verbatim>\<open>break\<close>: the option
  loop goes on with the options that follow. When no later \<^verbatim>\<open>-p\<close> replaces the port and
  \<^verbatim>\<open>main\<close> reaches the run loop, \<^verbatim>\<open>port\<close> is the given one, every entry of the group
  table has it as the port of its group address, the message is in the output, and
  \<^verbatim>\<open>main\<close> returns what the run loop returns.
\<close>

theorem privileged_port_not_fatal:
  assumes low: "atoi optarg < 1024" and user: "geteuid E \<noteq> 0"
  shows "option_switch H E (CHR ''p'') optarg s
           = Inr (s\<lparr>port := atoi optarg,
                    out := out s @ [ERROR ''Must be root to use privileged ports (< 1024)'']\<rparr>) \<and>
         parse_options H E ((CHR ''p'', optarg) # opts) s
           = parse_options H E opts
               (s\<lparr>port := atoi optarg,
                  out := out s @ [ERROR ''Must be root to use privileged ports (< 1024)'']\<rparr>) \<and>
         (\<forall>s'. CHR ''p'' \<notin> fst ` set post \<longrightarrow>
               before_loop H E arg0 (pre @ (CHR ''p'', optarg) # post) args (init_state H w) = Inr s' \<longrightarrow>
               port s' = atoi optarg \<and>
               (\<forall>g \<in> set (groups s'). sa_port (grp g) = word_of_int (atoi optarg)) \<and>
               ERROR ''Must be root to use privileged ports (< 1024)'' \<in> set (out s') \<and>
               main H E n arg0 (pre @ (CHR ''p'', optarg) # post) args w = loop H E n s')"
proof -
  let ?msg = "ERROR ''Must be root to use privileged ports (< 1024)''"
  have sw: "option_switch H E (CHR ''p'') optarg t
            = Inr (t\<lparr>port := atoi optarg, out := out t @ [?msg]\<rparr>)" for t :: "'a state"
    using low user by (simp add: option_switch_def Let_def)
  have po: "parse_options H E ((CHR ''p'', optarg) # opts) s
            = parse_options H E opts (s\<lparr>port := atoi optarg, out := out s @ [?msg]\<rparr>)"
    by (simp add: sw)
  have run: "port s' = atoi optarg \<and>
             (\<forall>g \<in> set (groups s'). sa_port (grp g) = word_of_int (atoi optarg)) \<and>
             ?msg \<in> set (out s') \<and>
             main H E n arg0 (pre @ (CHR ''p'', optarg) # post) args w = loop H E n s'"
    if np: "CHR ''p'' \<notin> fst ` set post"
      and b: "before_loop H E arg0 (pre @ (CHR ''p'', optarg) # post) args (init_state H w) = Inr s'"
    for s'
  proof -
    let ?opts = "pre @ (CHR ''p'', optarg) # post"
    from b obtain s4 s5 where st: "startup H E arg0 ?opts args (init_state H w) = Inr s4"
      and ex: "expand_args H E args s4 = Inr s5" and s': "s' = resolve H E s5"
      by (auto simp: before_loop_def split: sum.splits)
    from startup_port[OF st] obtain s1 where
      p: "parse_options H E ?opts ((init_state H w)\<lparr>ident := progname arg0\<rparr>) = Inr s1"
      and s41: "port s4 = port s1 \<and> out s4 = out s1" by blast
    from p obtain t where
      t: "parse_options H E pre ((init_state H w)\<lparr>ident := progname arg0\<rparr>) = Inr t"
      and r: "parse_options H E ((CHR ''p'', optarg) # post) t = Inr s1"
      by (auto simp: parse_options_append split: sum.splits)
    from r have "parse_options H E post (t\<lparr>port := atoi optarg, out := out t @ [?msg]\<rparr>) = Inr s1"
      by (simp add: sw)
    from parse_options_port[OF np this]
    have s1: "port s1 = atoi optarg \<and> out s1 = out t @ [?msg]" by simp
    have s5: "port s5 = atoi optarg \<and> out s5 = out t @ [?msg]"
      using expand_args_port[OF ex] s41 s1 by simp
    have m: "main H E n arg0 ?opts args w = loop H E n s'"
      by (simp add: main_def b)
    show ?thesis
      using resolve_port[of H E s5] s5 m by (simp add: s')
  qed
  from sw po run show ?thesis by blast
qed

theorem privileged_port_not_fatal_witness:
  "atoi ''80'' < 1024 \<and> geteuid (linux_env 0 True) \<noteq> 0 \<and>
   (\<exists>s' s''. before_loop small_hdr (linux_env 0 True) ''mcjoin'' [(CHR ''p'', ''80'')] [''239.1.1.1'']
                (init_state small_hdr ()) = Inr s' \<and>
             port s' = 80 \<and> map (\<lambda>g. sa_port (grp g)) (groups s') = [80] \<and>
             ERROR ''Must be root to use privileged ports (< 1024)'' \<in> set (out s') \<and>
             main small_hdr (linux_env 0 True) 1 ''mcjoin'' [(CHR ''p'', ''80'')] [''239.1.1.1''] ()
               = Some (0, s'') \<and> port s'' = 80)"
proof -
  let ?E = "linux_env 0 True :: unit env"
  let ?msg = "ERROR ''Must be root to use privileged ports (< 1024)''"
  let ?s0 = "(init_state small_hdr ())\<lparr>ident := ''mcjoin'', port := 80, out := [?msg], iface := ''eth0''\<rparr>"
  let ?s1 = "?s0\<lparr>groups := groups ?s0 @ [(zero_gr small_hdr)\<lparr>source := None, group := ''239.1.1.1''\<rparr>]\<rparr>"
  have low: "atoi ''80'' < 1024" by (simp add: atoi_80)
  have user: "geteuid ?E \<noteq> 0" by (simp add: linux_env_def)
  have p4: "inet_pton ?E (CHR '':'' \<in> set ''239.1.1.1'') ''239.1.1.1'' = Some [239, 1, 1, 1]"
    by (simp add: linux_env_def pton_239_1_1_1)
  have st: "startup small_hdr ?E ''mcjoin'' [(CHR ''p'', ''80'')] [''239.1.1.1''] (init_state small_hdr ())
            = Inr ?s0"
    by (simp add: startup_def progname_def option_switch_def atoi_80 Let_def
          linux_env_def init_state_def small_hdr_def)
  have e1: "expand_arg small_hdr ?E ''239.1.1.1'' ?s0 = Inr ?s1"
    by (rule expand_arg_plain[OF _ _ _ _ p4]) (simp_all add: small_hdr_def init_state_def)
  have ex: "expand_args small_hdr ?E [''239.1.1.1''] ?s0 = Inr ?s1"
    by (simp only: expand_args.simps e1 sum.case)
  have b: "before_loop small_hdr ?E ''mcjoin'' [(CHR ''p'', ''80'')] [''239.1.1.1''] (init_state small_hdr ())
           = Inr (resolve small_hdr ?E ?s1)"
    by (simp only: before_loop_def st ex sum.case)
  note main_part = privileged_port_not_fatal[OF low user, where H = small_hdr and pre = "[]"
      and post = "[]" and ?arg0.0 = "''mcjoin''" and args = "[''239.1.1.1'']" and w = "()" and n = 1,
      THEN conjunct2, THEN conjunct2, rule_format, simplified append_Nil, OF _ b]
  have np: "CHR ''p'' \<notin> fst ` set ([] :: (char \<times> string) list)" by simp
  note facts = main_part[OF np]
  have len: "group_num (resolve small_hdr ?E ?s1) = 1"
    using resolve_upto_port[of 1 ?s1 small_hdr ?E] by (simp add: resolve_def init_state_def)
  have pt: "port (resolve small_hdr ?E ?s1) = 80"
    using facts by (simp add: atoi_80)
  have sp: "map (\<lambda>g. sa_port (grp g)) (groups (resolve small_hdr ?E ?s1)) = [80]"
  proof -
    obtain g where g: "groups (resolve small_hdr ?E ?s1) = [g]"
      using len by (cases "groups (resolve small_hdr ?E ?s1)") auto
    with facts show ?thesis by (simp add: atoi_80)
  qed
  have msg: "?msg \<in> set (out (resolve small_hdr ?E ?s1))" using facts by simp
  have m: "main small_hdr ?E 1 ''mcjoin'' [(CHR ''p'', ''80'')] [''239.1.1.1''] ()
           = loop small_hdr ?E 1 (resolve small_hdr ?E ?s1)" using facts by simp
  have fr: "join (resolve small_hdr ?E ?s1) \<noteq> 0 \<and> running (resolve small_hdr ?E ?s1) \<noteq> 0 \<and>
            winchg (resolve small_hdr ?E ?s1) = 0"
    by (simp add: resolve_frame init_state_def)
  have lp: "\<exists>s''. loop small_hdr ?E 1 (resolve small_hdr ?E ?s1) = Some (0, s'') \<and> port s'' = 80"
  proof (intro exI conjI)
    show "loop small_hdr ?E 1 (resolve small_hdr ?E ?s1)
          = Some (0, loop_exit 0 (exit_loop (redraw small_hdr ?E 0 (resolve small_hdr ?E ?s1))))"
      by (rule loop_one_signal)
        (rule fr[THEN conjunct1], rule fr[THEN conjunct2, THEN conjunct1],
         rule fr[THEN conjunct2, THEN conjunct2])
    show "port (loop_exit 0 (exit_loop (redraw small_hdr ?E 0 (resolve small_hdr ?E ?s1)))) = 80"
      by (simp add: loop_exit_port exit_loop_def redraw_0_frame resolve_port)
  qed
  from lp obtain s'' where s'': "loop small_hdr ?E 1 (resolve small_hdr ?E ?s1) = Some (0, s'')"
    "port s'' = 80" by blast
  show ?thesis
    apply (intro conjI low user)
    apply (rule exI[of _ "resolve small_hdr ?E ?s1"])
    apply (rule exI[of _ s''])
    apply (simp only: b pt sp msg m s'' simp_thms)
    done
qed


subsection \<open>The result of the run loop and the statistics\<close>

lemma loop_while_iterations:
  "loop_while H E n (iterations H E i s) = Some r \<longleftrightarrow>
     (\<exists>k\<le>n. (\<forall>j<k. fst (iterations H E (i + j) s) = 0 \<and> running (snd (iterations H E (i + j) s)) \<noteq> 0) \<and>
            \<not> (fst (iterations H E (i + k) s) = 0 \<and> running (snd (iterations H E (i + k) s)) \<noteq> 0) \<and>
            r = iterations H E (i + k) s)"
proof (induction n arbitrary: i)
  case 0
  show ?case by (cases "iterations H E i s") auto
next
  case (Suc n)
  let ?c = "\<lambda>j. fst (iterations H E j s) = 0 \<and> running (snd (iterations H E j s)) \<noteq> 0"
  show ?case
  proof (cases "?c i")
    case False
    have "(\<exists>k\<le>Suc n. (\<forall>j<k. ?c (i + j)) \<and> \<not> ?c (i + k) \<and> r = iterations H E (i + k) s)
          \<longleftrightarrow> r = iterations H E i s"
    proof
      assume "\<exists>k\<le>Suc n. (\<forall>j<k. ?c (i + j)) \<and> \<not> ?c (i + k) \<and> r = iterations H E (i + k) s"
      then obtain k where k: "\<forall>j<k. ?c (i + j)" "r = iterations H E (i + k) s" by blast
      have "k = 0"
      proof (rule ccontr)
        assume "k \<noteq> 0"
        then have "?c (i + 0)" using k(1) by blast
        with False show False by simp
      qed
      with k(2) show "r = iterations H E i s" by simp
    next
      assume "r = iterations H E i s"
      with False have "(\<forall>j<0::nat. ?c (i + j)) \<and> \<not> ?c (i + 0) \<and> r = iterations H E (i + 0) s"
        by simp
      then show "\<exists>k\<le>Suc n. (\<forall>j<k. ?c (i + j)) \<and> \<not> ?c (i + k) \<and> r = iterations H E (i + k) s"
        by blast
    qed
    moreover have "loop_while H E (Suc n) (iterations H E i s) = Some (iterations H E i s)"
      using False by (cases "iterations H E i s") auto
    ultimately show ?thesis by auto
  next
    case True
    have "loop_while H E (Suc n) (iterations H E i s) = loop_while H E n (iterations H E (Suc i) s)"
      using True by (cases "iterations H E i s") auto
    moreover have
      "(\<exists>k\<le>Suc n. (\<forall>j<k. ?c (i + j)) \<and> \<not> ?c (i + k) \<and> r = iterations H E (i + k) s)
       \<longleftrightarrow> (\<exists>k\<le>n. (\<forall>j<k. ?c (Suc i + j)) \<and> \<not> ?c (Suc i + k) \<and> r = iterations H E (Suc i + k) s)"
    proof
      assume "\<exists>k\<le>Suc n. (\<forall>j<k. ?c (i + j)) \<and> \<not> ?c (i + k) \<and> r = iterations H E (i + k) s"
      then obtain k where k: "k \<le> Suc n" "\<forall>j<k. ?c (i + j)" "\<not> ?c (i + k)"
        "r = iterations H E (i + k) s" by blast
      from k(3) True have "k \<noteq> 0" by (cases k) auto
      then obtain k' where k': "k = Suc k'" by (cases k) auto
      have "\<forall>j<k'. ?c (Suc i + j)"
      proof (intro allI impI)
        fix j assume "j < k'"
        then have "Suc j < k" by (simp add: k')
        with k(2) have "?c (i + Suc j)" by blast
        then show "?c (Suc i + j)" by simp
      qed
      moreover have "k' \<le> n" using k(1) k' by simp
      moreover have "\<not> ?c (Suc i + k')" using k(3) k' by simp
      moreover have "r = iterations H E (Suc i + k') s" using k(4) k' by simp
      ultimately show "\<exists>k\<le>n. (\<forall>j<k. ?c (Suc i + j)) \<and> \<not> ?c (Suc i + k) \<and> r = iterations H E (Suc i + k) s"
        by blast
    next
      assume "\<exists>k\<le>n. (\<forall>j<k. ?c (Suc i + j)) \<and> \<not> ?c (Suc i + k) \<and> r = iterations H E (Suc i + k) s"
      then obtain k where k: "k \<le> n" "\<forall>j<k. ?c (Suc i + j)" "\<not> ?c (Suc i + k)"
        "r = iterations H E (Suc i + k) s" by blast
      have "\<forall>j<Suc k. ?c (i + j)"
      proof (intro allI impI)
        fix j assume j: "j < Suc k"
        show "?c (i + j)"
        proof (cases j)
          case 0
          with True show ?thesis by simp
        next
          case (Suc j')
          with j have "j' < k" by simp
          with k(2) have "?c (Suc i + j')" by blast
          then show ?thesis by (simp add: Suc)
        qed
      qed
      moreover have "Suc k \<le> Suc n" using k(1) by simp
      moreover have "\<not> ?c (i + Suc k)" using k(3) by simp
      moreover have "r = iterations H E (i + Suc k) s" using k(4) by simp
      ultimately show "\<exists>k\<le>Suc n. (\<forall>j<k. ?c (i + j)) \<and> \<not> ?c (i + k) \<and> r = iterations H E (i + k) s"
        by blast
    qed
    ultimately show ?thesis using Suc.IH[of "Suc i"] by simp
  qed
qed

lemma stats_fold:
  assumes "n \<le> group_num s"
  shows "foldl (\<lambda>s i. s\<lparr>out := out s @ [STATS_GROUP (group (groups s ! i))
                                          (count (groups s ! i)) (gaps (groups s ! i))]\<rparr>) s [0..<n]
         = s\<lparr>out := out s @ map (\<lambda>g. STATS_GROUP (group g) (count g) (gaps g)) (take n (groups s))\<rparr>"
  using assms
proof (induction n)
  case 0
  show ?case by simp
next
  case (Suc n)
  then have "n < group_num s" by simp
  then show ?case using Suc.IH by (simp add: take_Suc_conv_app_nth)
qed

lemma total_fold:
  fixes xs :: "gr list"
  assumes "n \<le> length xs"
  shows "foldl (\<lambda>t i. t + count (xs ! i)) 0 [0..<n] = sum_list (map count (take n xs))"
  using assms
proof (induction n)
  case 0
  show ?case by simp
next
  case (Suc n)
  then have "n < length xs" by simp
  then show ?case using Suc.IH by (simp add: take_Suc_conv_app_nth)
qed

lemma show_stats_eq:
  "show_stats s
   = s\<lparr>out := out s @ (if join s \<noteq> 0
                       then map (\<lambda>g. STATS_GROUP (group g) (count g) (gaps g)) (groups s)
                            @ [STATS_TOTAL (sum_list (map count (groups s)))]
                       else [])\<rparr>"
  using stats_fold[of "group_num s" s] total_fold[of "group_num s" "groups s"]
  by (simp add: show_stats_def Let_def)

lemma loop_exit_out:
  "out (loop_exit rc s1)
   = out s1
     @ (if rc = 0 \<and> join s1 \<noteq> 0
        then map (\<lambda>g. STATS_GROUP (group g) (count g) (gaps g)) (groups s1)
             @ [STATS_TOTAL (sum_list (map count (groups s1)))]
        else [])
     @ (if foreground s1 \<noteq> 0 \<and> old s1 = 0
        then [SCREEN ''gotoxy'', SCREEN ''showcursor'', SCREEN ''ttcooked'']
        else [])"
  by (simp add: loop_exit_def Let_def show_stats_eq)

lemma resolve_modes:
  "old (resolve H E s) = old s \<and> foreground (resolve H E s) = foreground s"
proof -
  have "old (foldl (resolve_step H E) s xs) = old s" for xs
    by (rule foldl_frame) (simp add: resolve_step_def Let_def)
  moreover have "foreground (foldl (resolve_step H E) s xs) = foreground s" for xs
    by (rule foldl_frame) (simp add: resolve_step_def Let_def)
  ultimately show ?thesis by (simp add: resolve_def)
qed

lemma redraw_0_out:
  assumes "old s = 0" and "foreground s \<noteq> 0"
  shows "out (redraw H E 0 s)
         = out s @ [SCREEN ''ttraw'', SCREEN ''hidecursor'', SCREEN ''cls'',
                    SCREEN (if join s = 0 then ''mcjoin :: sending multicast''
                            else ''mcjoin :: receiving multicast''),
                    SCREEN ''ctrl-c to exit'', SCREEN ''SOURCE,GROUP PLOTTER PACKETS'',
                    SCREEN ''TIME LOG'']"
  using assms by (simp add: redraw_def Let_def)

lemma redraw_0_modes:
  "old (redraw H E 0 s) = old s \<and> foreground (redraw H E 0 s) = foreground s \<and>
   groups (redraw H E 0 s) = groups s"
  by (simp add: redraw_def Let_def)

lemma resolve_step_counters:
  "map (\<lambda>g. (group g, count g, gaps g)) (groups (resolve_step H E s i))
   = map (\<lambda>g. (group g, count g, gaps g)) (groups s)"
proof (cases "i < group_num s")
  case True
  then have "(map (\<lambda>g. (group g, count g, gaps g)) (groups s))
               [i := (group (groups s ! i), count (groups s ! i), gaps (groups s ! i))]
             = map (\<lambda>g. (group g, count g, gaps g)) (groups s)"
    by (simp add: list_update_same_conv)
  then show ?thesis
    by (simp add: resolve_step_def Let_def map_update)
next
  case False
  then show ?thesis by (simp add: resolve_step_def Let_def list_update_beyond not_less)
qed

lemma resolve_counters:
  "map (\<lambda>g. (group g, count g, gaps g)) (groups (resolve H E s))
   = map (\<lambda>g. (group g, count g, gaps g)) (groups s)"
proof -
  have "map (\<lambda>g. (group g, count g, gaps g)) (groups (foldl (resolve_step H E) s xs))
        = map (\<lambda>g. (group g, count g, gaps g)) (groups s)" for xs
    by (induction xs arbitrary: s) (simp_all add: resolve_step_counters)
  then show ?thesis by (simp add: resolve_def)
qed

lemma loop_init_linux: "loop_init (linux_env rc sig) s = (0, s)"
  by (simp add: loop_init_def linux_env_def)

lemma loop_body_linux:
  assumes "winchg s = 0"
  shows "loop_body H (linux_env rc sig) s
         = (rc, (if sig then exit_loop else id) (redraw H (linux_env rc sig) 0 s))"
  using assms by (simp add: loop_body_def Let_def) (simp add: linux_env_def)

lemma loop_one_unit:
  assumes "running s \<noteq> 0" and "winchg s = 0" and "rc \<noteq> 0 \<or> sig"
  shows "loop H (linux_env rc sig) 1 s
         = Some (rc, loop_exit rc ((if sig then exit_loop else id) (redraw H (linux_env rc sig) 0 s)))"
proof -
  have r: "running (exit_loop t) = 0" for t :: "unit state" by (simp add: exit_loop_def)
  show ?thesis
    using assms(1,3) by (auto simp: loop_def loop_init_linux loop_body_linux[OF assms(2)] r)
qed

text \<open>
  Claim C7. \<open>iterations H E k s\<close> is the result and the state of the \<open>k\<close>-th unit of work
  (the initialisation for \<open>k = 0\<close>, the \<open>k\<close>-th call of the sender or receiver after
  that); a unit has failed when its result is not 0. The loop returns \<open>rc\<close> with the
  final state \<open>s'\<close> exactly when, within the fuel, there is a unit \<open>k\<close> that returned
  \<open>rc\<close>, every unit before it returned 0 with the run flag set, and the loop test
  \<^verbatim>\<open>!rc && running\<close> after it failed: with \<open>rc = 0\<close> that is the run flag found cleared,
  otherwise it is the nonzero result of that unit (which the test looks at first).
  After the loop the statistics (a line for each group and the total) are printed
  exactly when \<open>rc\<close> is 0 and the program is in receive mode (\<^verbatim>\<open>join\<close> nonzero); then
  the terminal is restored. \<^verbatim>\<open>main\<close> returns what the loop returns.
\<close>

theorem loop_result_and_stats:
  "(loop H E n s = Some (rc, s') \<longleftrightarrow>
      (\<exists>k\<le>n. (\<forall>j<k. fst (iterations H E j s) = 0 \<and> running (snd (iterations H E j s)) \<noteq> 0) \<and>
             fst (iterations H E k s) = rc \<and>
             (rc = 0 \<longrightarrow> running (snd (iterations H E k s)) = 0) \<and>
             s' = loop_exit rc (snd (iterations H E k s)))) \<and>
   out (loop_exit rc s1)
     = out s1
       @ (if rc = 0 \<and> join s1 \<noteq> 0
          then map (\<lambda>g. STATS_GROUP (group g) (count g) (gaps g)) (groups s1)
               @ [STATS_TOTAL (sum_list (map count (groups s1)))]
          else [])
       @ (if foreground s1 \<noteq> 0 \<and> old s1 = 0
          then [SCREEN ''gotoxy'', SCREEN ''showcursor'', SCREEN ''ttcooked'']
          else []) \<and>
   (before_loop H E arg0 opts args (init_state H w) = Inr s \<longrightarrow>
      main H E n arg0 opts args w = loop H E n s)"
proof -
  let ?c = "\<lambda>j. fst (iterations H E j s) = 0 \<and> running (snd (iterations H E j s)) \<noteq> 0"
  have w: "loop_while H E n (loop_init E s) = Some r \<longleftrightarrow>
           (\<exists>k\<le>n. (\<forall>j<k. ?c j) \<and> \<not> ?c k \<and> r = iterations H E k s)" for r
    using loop_while_iterations[of H E n 0 s r] by simp
  have "loop H E n s = Some (rc, s') \<longleftrightarrow>
        (\<exists>s1. loop_while H E n (loop_init E s) = Some (rc, s1) \<and> s' = loop_exit rc s1)"
    by (auto simp: loop_def split: option.splits)
  also have "\<dots> \<longleftrightarrow> (\<exists>s1. (\<exists>k\<le>n. (\<forall>j<k. ?c j) \<and> \<not> ?c k \<and> (rc, s1) = iterations H E k s) \<and>
                         s' = loop_exit rc s1)"
    by (simp only: w)
  also have "\<dots> \<longleftrightarrow> (\<exists>k\<le>n. (\<forall>j<k. ?c j) \<and> fst (iterations H E k s) = rc \<and>
                           (rc = 0 \<longrightarrow> running (snd (iterations H E k s)) = 0) \<and>
                           s' = loop_exit rc (snd (iterations H E k s)))"
    by (auto simp: prod_eq_iff)
  finally have a: "loop H E n s = Some (rc, s') \<longleftrightarrow>
        (\<exists>k\<le>n. (\<forall>j<k. ?c j) \<and> fst (iterations H E k s) = rc \<and>
               (rc = 0 \<longrightarrow> running (snd (iterations H E k s)) = 0) \<and>
               s' = loop_exit rc (snd (iterations H E k s)))" .
  have c: "before_loop H E arg0 opts args (init_state H w) = Inr s \<longrightarrow>
           main H E n arg0 opts args w = loop H E n s"
    by (simp add: main_def)
  from a loop_exit_out[of rc s1] c show ?thesis by (intro conjI)
qed

theorem loop_result_and_stats_witness:
  "(\<exists>s'. main small_hdr (linux_env 1 False) 3 ''mcjoin'' [] [''239.1.1.1''] () = Some (1, s') \<and>
         out s' = [SCREEN ''ttraw'', SCREEN ''hidecursor'', SCREEN ''cls'',
                   SCREEN ''mcjoin :: receiving multicast'', SCREEN ''ctrl-c to exit'',
                   SCREEN ''SOURCE,GROUP PLOTTER PACKETS'', SCREEN ''TIME LOG'',
                   SCREEN ''gotoxy'', SCREEN ''showcursor'', SCREEN ''ttcooked'']) \<and>
   (\<exists>s'. main small_hdr (linux_env 0 True) 3 ''mcjoin'' [] [''239.1.1.1''] () = Some (0, s') \<and>
         out s' = [SCREEN ''ttraw'', SCREEN ''hidecursor'', SCREEN ''cls'',
                   SCREEN ''mcjoin :: receiving multicast'', SCREEN ''ctrl-c to exit'',
                   SCREEN ''SOURCE,GROUP PLOTTER PACKETS'', SCREEN ''TIME LOG'',
                   STATS_GROUP ''239.1.1.1'' 0 0, STATS_TOTAL 0,
                   SCREEN ''gotoxy'', SCREEN ''showcursor'', SCREEN ''ttcooked''])"
proof -
  let ?s0 = "(init_state small_hdr ())\<lparr>ident := ''mcjoin'', iface := ''eth0''\<rparr>"
  let ?s1 = "?s0\<lparr>groups := groups ?s0 @ [(zero_gr small_hdr)\<lparr>source := None, group := ''239.1.1.1''\<rparr>]\<rparr>"
  have run: "\<exists>s'. main small_hdr (linux_env rc sig) 3 ''mcjoin'' [] [''239.1.1.1''] () = Some (rc, s') \<and>
                  out s' = [SCREEN ''ttraw'', SCREEN ''hidecursor'', SCREEN ''cls'',
                            SCREEN ''mcjoin :: receiving multicast'', SCREEN ''ctrl-c to exit'',
                            SCREEN ''SOURCE,GROUP PLOTTER PACKETS'', SCREEN ''TIME LOG'']
                           @ (if rc = 0 then [STATS_GROUP ''239.1.1.1'' 0 0, STATS_TOTAL 0] else [])
                           @ [SCREEN ''gotoxy'', SCREEN ''showcursor'', SCREEN ''ttcooked'']"
    if stop: "rc \<noteq> 0 \<or> sig" for rc sig
  proof -
    let ?E = "linux_env rc sig :: unit env"
    define r where "r = resolve small_hdr ?E ?s1"
    define t where "t = (if sig then exit_loop else id) (redraw small_hdr ?E 0 r)"
    have p4: "inet_pton ?E (CHR '':'' \<in> set ''239.1.1.1'') ''239.1.1.1'' = Some [239, 1, 1, 1]"
      by (simp add: linux_env_def pton_239_1_1_1)
    have st: "startup small_hdr ?E ''mcjoin'' [] [''239.1.1.1''] (init_state small_hdr ()) = Inr ?s0"
      by (simp add: startup_plain)
    have e1: "expand_arg small_hdr ?E ''239.1.1.1'' ?s0 = Inr ?s1"
      by (rule expand_arg_plain[OF _ _ _ _ p4]) (simp_all add: small_hdr_def init_state_def)
    have ex: "expand_args small_hdr ?E [''239.1.1.1''] ?s0 = Inr ?s1"
      by (simp only: expand_args.simps e1 sum.case)
    have b: "before_loop small_hdr ?E ''mcjoin'' [] [''239.1.1.1''] (init_state small_hdr ()) = Inr r"
      unfolding r_def by (simp only: before_loop_def st ex sum.case)
    have fr: "join r = 1" "running r = 1" "winchg r = 0" "old r = 0" "foreground r = 1" "out r = []"
      unfolding r_def by (simp_all add: resolve_frame resolve_modes resolve_port init_state_def)
    have gs: "map (\<lambda>g. (group g, count g, gaps g)) (groups r) = [(''239.1.1.1'', 0, 0)]"
      unfolding r_def by (simp add: resolve_counters init_state_def zero_gr_def)
    have ft: "join t = 1" "old t = 0" "foreground t = 1" "groups t = groups r"
      "out t = [SCREEN ''ttraw'', SCREEN ''hidecursor'', SCREEN ''cls'',
                SCREEN ''mcjoin :: receiving multicast'', SCREEN ''ctrl-c to exit'',
                SCREEN ''SOURCE,GROUP PLOTTER PACKETS'', SCREEN ''TIME LOG'']"
      "rc = 0 \<longrightarrow> running t = 0"
      using stop
      by (simp_all add: t_def exit_loop_def redraw_0_frame redraw_0_modes redraw_0_out fr)
    note T = loop_result_and_stats[of small_hdr ?E 3 r rc "loop_exit rc t" t "''mcjoin''" "[]"
        "[''239.1.1.1'']" "()"]
    have k: "\<exists>k\<le>3. (\<forall>j<k. fst (iterations small_hdr ?E j r) = 0 \<and>
                          running (snd (iterations small_hdr ?E j r)) \<noteq> 0) \<and>
                   fst (iterations small_hdr ?E k r) = rc \<and>
                   (rc = 0 \<longrightarrow> running (snd (iterations small_hdr ?E k r)) = 0) \<and>
                   loop_exit rc t = loop_exit rc (snd (iterations small_hdr ?E k r))"
      using ft(6)
      by (intro exI[of _ 1]) (simp add: loop_init_linux loop_body_linux[OF fr(3)] fr(2) t_def)
    have l: "loop small_hdr ?E 3 r = Some (rc, loop_exit rc t)"
      using T[THEN conjunct1] k by (rule iffD2)
    have m: "main small_hdr ?E 3 ''mcjoin'' [] [''239.1.1.1''] () = loop small_hdr ?E 3 r"
      using T[THEN conjunct2, THEN conjunct2] b by (rule mp)
    have g1: "map (\<lambda>g. STATS_GROUP (group g) (count g) (gaps g)) (groups r)
              = map (\<lambda>(a, b, c). STATS_GROUP a b c) (map (\<lambda>g. (group g, count g, gaps g)) (groups r))"
      by simp
    have g2: "sum_list (map count (groups r))
              = sum_list (map (\<lambda>(a, b, c). b) (map (\<lambda>g. (group g, count g, gaps g)) (groups r)))"
      by (simp add: comp_def)
    have o: "out (loop_exit rc t)
             = [SCREEN ''ttraw'', SCREEN ''hidecursor'', SCREEN ''cls'',
                SCREEN ''mcjoin :: receiving multicast'', SCREEN ''ctrl-c to exit'',
                SCREEN ''SOURCE,GROUP PLOTTER PACKETS'', SCREEN ''TIME LOG'']
               @ (if rc = 0 then [STATS_GROUP ''239.1.1.1'' 0 0, STATS_TOTAL 0] else [])
               @ [SCREEN ''gotoxy'', SCREEN ''showcursor'', SCREEN ''ttcooked'']"
      unfolding T[THEN conjunct2, THEN conjunct1] ft(4) g1 g2 gs
      by (simp add: ft)
    show ?thesis
      by (rule exI[of _ "loop_exit rc t"]) (simp only: m l o simp_thms)
  qed
  from run[of 1 False] run[of 0 True] show ?thesis by simp
qed

text \<open>
  In send mode (\<^verbatim>\<open>mcjoin -s 239.1.1.1\<close>, a termination signal during the first call of
  the sender) the loop returns 0 and \<^verbatim>\<open>show_stats\<close> is called, but it prints under
  \<^verbatim>\<open>if (join)\<close> only: no statistics are in the output.
\<close>

theorem stats_not_printed_in_send_mode:
  "\<exists>s'. main small_hdr (linux_env 0 True) 1 ''mcjoin'' [(CHR ''s'', [])] [''239.1.1.1''] ()
          = Some (0, s') \<and>
        out s' = [SCREEN ''ttraw'', SCREEN ''hidecursor'', SCREEN ''cls'',
                  SCREEN ''mcjoin :: sending multicast'', SCREEN ''ctrl-c to exit'',
                  SCREEN ''SOURCE,GROUP PLOTTER PACKETS'', SCREEN ''TIME LOG'',
                  SCREEN ''gotoxy'', SCREEN ''showcursor'', SCREEN ''ttcooked'']"
proof -
  let ?E = "linux_env 0 True :: unit env"
  let ?s0 = "(init_state small_hdr ())\<lparr>ident := ''mcjoin'', join := 0, iface := ''eth0''\<rparr>"
  let ?s1 = "?s0\<lparr>groups := groups ?s0 @ [(zero_gr small_hdr)\<lparr>source := None, group := ''239.1.1.1''\<rparr>]\<rparr>"
  define r where "r = resolve small_hdr ?E ?s1"
  let ?t = "exit_loop (redraw small_hdr ?E 0 r)"
  have p4: "inet_pton ?E (CHR '':'' \<in> set ''239.1.1.1'') ''239.1.1.1'' = Some [239, 1, 1, 1]"
    by (simp add: linux_env_def pton_239_1_1_1)
  have st: "startup small_hdr ?E ''mcjoin'' [(CHR ''s'', [])] [''239.1.1.1''] (init_state small_hdr ())
            = Inr ?s0"
    by (simp add: startup_def progname_def option_switch_def Let_def
          linux_env_def init_state_def small_hdr_def)
  have e1: "expand_arg small_hdr ?E ''239.1.1.1'' ?s0 = Inr ?s1"
    by (rule expand_arg_plain[OF _ _ _ _ p4]) (simp_all add: small_hdr_def init_state_def)
  have ex: "expand_args small_hdr ?E [''239.1.1.1''] ?s0 = Inr ?s1"
    by (simp only: expand_args.simps e1 sum.case)
  have b: "before_loop small_hdr ?E ''mcjoin'' [(CHR ''s'', [])] [''239.1.1.1''] (init_state small_hdr ())
           = Inr r"
    unfolding r_def by (simp only: before_loop_def st ex sum.case)
  have fr: "join r = 0" "running r \<noteq> 0" "winchg r = 0" "old r = 0" "foreground r = 1" "out r = []"
    unfolding r_def by (simp_all add: resolve_frame resolve_modes resolve_port init_state_def)
  have l: "loop small_hdr ?E 1 r = Some (0, loop_exit 0 ?t)"
    using loop_one_unit[OF fr(2) fr(3), of 0 True small_hdr] by simp
  have m: "main small_hdr ?E 1 ''mcjoin'' [(CHR ''s'', [])] [''239.1.1.1''] () = loop small_hdr ?E 1 r"
    by (simp only: main_def b sum.case)
  have o: "out (loop_exit 0 ?t)
           = [SCREEN ''ttraw'', SCREEN ''hidecursor'', SCREEN ''cls'',
              SCREEN ''mcjoin :: sending multicast'', SCREEN ''ctrl-c to exit'',
              SCREEN ''SOURCE,GROUP PLOTTER PACKETS'', SCREEN ''TIME LOG'',
              SCREEN ''gotoxy'', SCREEN ''showcursor'', SCREEN ''ttcooked'']"
    by (simp add: loop_exit_out exit_loop_def redraw_0_out redraw_0_modes redraw_0_frame fr)
  show ?thesis
    by (rule exI[of _ "loop_exit 0 ?t"]) (simp only: m l o simp_thms)
qed


subsection \<open>Termination signals during an iteration of the run loop\<close>












end
